theory Spec2Isabelle
  imports Complex_Main "HOL-Library.Product_Lexorder" "HOL-Library.Multiset" "HOL-Library.Word"
begin

section \<open>Python values used by the duplicate cleaner\<close>

text \<open>
  Python \<open>str\<close> values are modelled as \<^typ>\<open>string\<close>, Python \<open>int\<close> as \<^typ>\<open>int\<close>, the
  \<open>float\<close> timestamps reported by \<open>stat\<close> as \<^typ>\<open>real\<close> (they are finite, never NaN), and
  \<open>bytes\<close> as lists of 8-bit words. Every exception the modelled code can meet is a value of
  \<open>error\<close>; a fallible operation returns \<open>error + 'a\<close> with \<open>Inl\<close> for the raised exception.
\<close>

datatype error = OSError | RuntimeError | ValueError | IndexError | AttributeError | TypeError

type_synonym bytes = "8 word list"

text \<open>
  \<open>str.lower\<close>. The characters of a \<^typ>\<open>string\<close> are the code points below 256; of those
  \<open>A\<close> to \<open>Z\<close> and the capital letters from \<open>0xC0\<close> to \<open>0xDE\<close> (all but the multiplication
  sign \<open>0xD7\<close>) have a lower-case form, 32 places up.
\<close>

definition lower_char :: "char \<Rightarrow> char" where
  "lower_char c =
     (let n = of_char c :: nat in
      if (65 \<le> n \<and> n \<le> 90) \<or> (192 \<le> n \<and> n \<le> 222 \<and> n \<noteq> 215)
      then char_of (n + 32) else c)"

definition lower :: "string \<Rightarrow> string" where
  "lower s = map lower_char s"

text \<open>\<open>needle in haystack\<close> for strings: a contiguous occurrence.\<close>

fun starts_with :: "string \<Rightarrow> string \<Rightarrow> bool" where
  "starts_with s [] = True"
| "starts_with [] (p # ps) = False"
| "starts_with (c # cs) (p # ps) = (c = p \<and> starts_with cs ps)"

fun str_contains :: "string \<Rightarrow> string \<Rightarrow> bool" where
  "str_contains [] needle = (needle = [])"
| "str_contains (c # cs) needle = (starts_with (c # cs) needle \<or> str_contains cs needle)"

text \<open>\<open>s.split(sep)\<close> for a one-character separator: never empty, \<open>''''.split(sep) = ['''']\<close>.\<close>

fun split_on :: "char \<Rightarrow> string \<Rightarrow> string list" where
  "split_on sep [] = [[]]"
| "split_on sep (c # cs) =
     (if c = sep then [] # split_on sep cs
      else (case split_on sep cs of
              [] \<Rightarrow> [[c]]
            | w # ws \<Rightarrow> (c # w) # ws))"

text \<open>\<open>sep.join(xs)\<close>.\<close>

fun join_with :: "string \<Rightarrow> string list \<Rightarrow> string" where
  "join_with sep [] = []"
| "join_with sep [x] = x"
| "join_with sep (x # y # ys) = x @ sep @ join_with sep (y # ys)"

text \<open>\<open>s.replace(old, new)\<close> for a one-character \<open>old\<close>.\<close>

definition replace_char :: "char \<Rightarrow> string \<Rightarrow> string \<Rightarrow> string" where
  "replace_char old new s = concat (map (\<lambda>c. if c = old then new else [c]) s)"

text \<open>\<open>s.find(sep, start)\<close>: the index of the first \<open>sep\<close> at or after \<open>start\<close>, \<open>None\<close> for \<open>-1\<close>.\<close>

fun find_from :: "char \<Rightarrow> nat \<Rightarrow> string \<Rightarrow> nat option" where
  "find_from sep start s =
     (case filter (\<lambda>i. s ! i = sep) [start ..< length s] of
        [] \<Rightarrow> None
      | i # _ \<Rightarrow> Some i)"

text \<open>\<open>s.rfind(c)\<close>: the index of the last \<open>c\<close>, \<open>None\<close> for \<open>-1\<close>.\<close>

definition rfind :: "char \<Rightarrow> string \<Rightarrow> nat option" where
  "rfind c s =
     (case filter (\<lambda>i. s ! i = c) (rev [0 ..< length s]) of
        [] \<Rightarrow> None
      | i # _ \<Rightarrow> Some i)"

text \<open>\<open>str(n)\<close> for a Python \<open>int\<close>.\<close>

definition digit_char :: "nat \<Rightarrow> char" where
  "digit_char d = ''0123456789'' ! d"

fun str_nat :: "nat \<Rightarrow> string" where
  "str_nat n = (if n < 10 then [digit_char n] else str_nat (n div 10) @ [digit_char (n mod 10)])"

declare str_nat.simps [simp del]

definition str_int :: "int \<Rightarrow> string" where
  "str_int i = (if i < 0 then CHR ''-'' # str_nat (nat (- i)) else str_nat (nat i))"

section \<open>The pure paths of \<open>pathlib\<close> (Python 3.11)\<close>

text \<open>
  The cleaner manipulates paths through the standard library's \<open>pathlib\<close>. Its lexical part
  is modelled here after \<open>pathlib.py\<close> of Python 3.11, for one-argument constructors: a path
  is the triple \<open>(drv, root, parts)\<close> that \<open>PurePath\<close> stores, where \<open>parts\<close> starts with the
  anchor \<open>drv + root\<close> when there is one. The program targets Windows; both flavours are
  modelled.
\<close>

datatype flavour = Windows | Posix

record purepath =
  drv :: string
  root :: string
  parts :: "string list"

definition sep :: "flavour \<Rightarrow> char" where
  "sep fl = (case fl of Windows \<Rightarrow> CHR 0x5C | Posix \<Rightarrow> CHR ''/'')"

definition altsep :: "flavour \<Rightarrow> char option" where
  "altsep fl = (case fl of Windows \<Rightarrow> Some (CHR ''/'') | Posix \<Rightarrow> None)"

definition casefold :: "flavour \<Rightarrow> string \<Rightarrow> string" where
  "casefold fl s = (case fl of Windows \<Rightarrow> lower s | Posix \<Rightarrow> s)"

definition casefold_parts :: "flavour \<Rightarrow> string list \<Rightarrow> string list" where
  "casefold_parts fl ps = map (casefold fl) ps"

definition drive_letters :: "char list" where
  "drive_letters = ''abcdefghijklmnopqrstuvwxyzABCDEFGHIJKLMNOPQRSTUVWXYZ''"

text \<open>\<open>_WindowsFlavour._split_extended_path\<close>: splits off a \<open>\\?\\<close> prefix.\<close>

definition split_extended_path :: "string \<Rightarrow> string \<times> string" where
  "split_extended_path s =
     (let bs = CHR 0x5C in
      if starts_with s [bs, bs, CHR ''?'', bs] then
        (let prefix = take 4 s; s1 = drop 4 s in
         if starts_with s1 [CHR ''U'', CHR ''N'', CHR ''C'', bs]
         then (prefix @ take 3 s1, bs # drop 3 s1)
         else (prefix, s1))
      else ([], s))"

text \<open>\<open>splitroot\<close> of the two flavours: a part is split into drive, root and the rest.\<close>

definition splitroot_windows :: "string \<Rightarrow> string \<times> string \<times> string" where
  "splitroot_windows part0 =
     (let bs = CHR 0x5C;
          (prefix, part) =
             (if take 1 (drop 1 part0) = [bs] \<and> take 1 part0 = [bs]
              then split_extended_path part0 else ([], part0));
          first = take 1 part;
          second = take 1 (drop 1 part);
          third = take 1 (drop 2 part);
          plain =
            (let (drv1, part1, first1) =
                   (if second = '':'' \<and> first \<noteq> [] \<and> hd first \<in> set drive_letters
                    then (take 2 part, drop 2 part, third)
                    else ([], part, first))
             in if first1 = [bs]
                then (prefix @ drv1, first1, dropWhile (\<lambda>c. c = bs) part1)
                else (prefix @ drv1, [], part1))
      in if second = [bs] \<and> first = [bs] \<and> third \<noteq> [bs] then
           (case find_from bs 2 part of
              None \<Rightarrow> plain
            | Some index \<Rightarrow>
                (case find_from bs (index + 1) part of
                   None \<Rightarrow>
                     (if prefix \<noteq> [] then (prefix @ drop 1 part, [bs], [])
                      else (part, [bs], []))
                 | Some index2 \<Rightarrow>
                     (if index2 \<noteq> index + 1 then
                        (if prefix \<noteq> []
                         then (prefix @ drop 1 (take index2 part), [bs], drop (index2 + 1) part)
                         else (take index2 part, [bs], drop (index2 + 1) part))
                      else plain)))
         else plain)"

definition splitroot_posix :: "string \<Rightarrow> string \<times> string \<times> string" where
  "splitroot_posix part =
     (if part \<noteq> [] \<and> hd part = CHR ''/'' then
        (let stripped_part = dropWhile (\<lambda>c. c = CHR ''/'') part in
         if length part - length stripped_part = 2
         then ([], ''//'', stripped_part)
         else ([], ''/'', stripped_part))
      else ([], [], part))"

definition splitroot :: "flavour \<Rightarrow> string \<Rightarrow> string \<times> string \<times> string" where
  "splitroot fl part = (case fl of Windows \<Rightarrow> splitroot_windows part | Posix \<Rightarrow> splitroot_posix part)"

text \<open>
  \<open>parse_parts\<close>: the arguments of a path constructor are read from the last to the first,
  up to the first one that has a drive or a root; a root without a drive takes the drive of
  the nearest earlier argument that has one.
\<close>

definition normalize_seps :: "flavour \<Rightarrow> string \<Rightarrow> string" where
  "normalize_seps fl part = (case altsep fl of Some a \<Rightarrow> replace_char a [sep fl] part | None \<Rightarrow> part)"

definition rel_components :: "flavour \<Rightarrow> string \<Rightarrow> string list" where
  "rel_components fl rel =
     (if sep fl \<in> set rel
      then filter (\<lambda>x. x \<noteq> [] \<and> x \<noteq> ''.'') (split_on (sep fl) rel)
      else (if rel \<noteq> [] \<and> rel \<noteq> ''.'' then [rel] else []))"

fun find_drive :: "flavour \<Rightarrow> string list \<Rightarrow> string" where
  "find_drive fl [] = []"
| "find_drive fl (part # earlier) =
     (if part = [] then find_drive fl earlier
      else (case splitroot fl (normalize_seps fl part) of
              (d, r, rel) \<Rightarrow> if d \<noteq> [] then d else find_drive fl earlier))"

fun parse_reversed :: "flavour \<Rightarrow> string list \<Rightarrow> string \<times> string \<times> string list" where
  "parse_reversed fl [] = ([], [], [])"
| "parse_reversed fl (part # earlier) =
     (if part = [] then parse_reversed fl earlier
      else (case splitroot fl (normalize_seps fl part) of
              (d, r, rel) \<Rightarrow>
                if d \<noteq> [] \<or> r \<noteq> []
                then ((if d = [] then find_drive fl earlier else d), r, rel_components fl rel)
                else (case parse_reversed fl earlier of
                        (d', r', parsed) \<Rightarrow> (d', r', parsed @ rel_components fl rel))))"

definition parse_parts :: "flavour \<Rightarrow> string list \<Rightarrow> purepath" where
  "parse_parts fl args =
     (case parse_reversed fl (rev args) of
        (d, r, parsed) \<Rightarrow>
          \<lparr>drv = d, root = r, parts = (if d \<noteq> [] \<or> r \<noteq> [] then [d @ r] else []) @ parsed\<rparr>)"

text \<open>
  The arguments of \<open>_parse_args\<close>: a string counts as itself, a path object as its parts,
  which are parsed again.
\<close>

definition Path :: "flavour \<Rightarrow> string \<Rightarrow> purepath" where
  "Path fl s = parse_parts fl [s]"

definition reparse :: "flavour \<Rightarrow> purepath \<Rightarrow> purepath" where
  "reparse fl p = parse_parts fl (parts p)"

text \<open>\<open>join_parsed_parts\<close>, the \<open>/\<close> operator on two parsed paths.\<close>

definition join_parsed_parts :: "flavour \<Rightarrow> purepath \<Rightarrow> purepath \<Rightarrow> purepath" where
  "join_parsed_parts fl p p2 =
     (if root p2 \<noteq> [] then
        (if drv p2 = [] \<and> drv p \<noteq> []
         then \<lparr>drv = drv p, root = root p2, parts = (drv p @ root p2) # drop 1 (parts p2)\<rparr>
         else p2)
      else if drv p2 \<noteq> [] then
        (if drv p2 = drv p \<or> casefold fl (drv p2) = casefold fl (drv p)
         then \<lparr>drv = drv p, root = root p, parts = parts p @ drop 1 (parts p2)\<rparr>
         else p2)
      else \<lparr>drv = drv p, root = root p, parts = parts p @ parts p2\<rparr>)"

text \<open>\<open>str(path)\<close>.\<close>

definition format_parsed_parts :: "flavour \<Rightarrow> purepath \<Rightarrow> string" where
  "format_parsed_parts fl p =
     (if drv p \<noteq> [] \<or> root p \<noteq> []
      then drv p @ root p @ join_with [sep fl] (drop 1 (parts p))
      else join_with [sep fl] (parts p))"

definition path_str :: "flavour \<Rightarrow> purepath \<Rightarrow> string" where
  "path_str fl p = (let s = format_parsed_parts fl p in if s = [] then ''.'' else s)"

text \<open>\<open>path == other\<close> compares the case-folded parts.\<close>

definition path_eq :: "flavour \<Rightarrow> purepath \<Rightarrow> purepath \<Rightarrow> bool" where
  "path_eq fl p q = (casefold_parts fl (parts p) = casefold_parts fl (parts q))"

definition anchored :: "purepath \<Rightarrow> bool" where
  "anchored p = (drv p \<noteq> [] \<or> root p \<noteq> [])"

text \<open>\<open>path.name\<close>, \<open>path.suffix\<close>, \<open>path.parent\<close>, \<open>path.parents\<close>.\<close>

definition name :: "purepath \<Rightarrow> string" where
  "name p = (if length (parts p) = (if anchored p then 1 else 0) then [] else last (parts p))"

definition suffix :: "purepath \<Rightarrow> string" where
  "suffix p =
     (let n = name p in
      case rfind (CHR ''.'') n of
        None \<Rightarrow> []
      | Some i \<Rightarrow> (if 0 < i \<and> i < length n - 1 then drop i n else []))"

definition parent :: "purepath \<Rightarrow> purepath" where
  "parent p =
     (if length (parts p) = 1 \<and> anchored p then p
      else p\<lparr>parts := butlast (parts p)\<rparr>)"

definition parents :: "purepath \<Rightarrow> purepath list" where
  "parents p =
     (let n = (if anchored p then length (parts p) - 1 else length (parts p))
      in map (\<lambda>idx. p\<lparr>parts := take (length (parts p) - idx - 1) (parts p)\<rparr>) [0 ..< n])"

text \<open>\<open>path.relative_to(other)\<close>: \<open>ValueError\<close> when \<open>path\<close> is not below \<open>other\<close>.\<close>

definition relative_to :: "flavour \<Rightarrow> purepath \<Rightarrow> purepath \<Rightarrow> error + purepath" where
  "relative_to fl p other_path =
     (let abs_parts = (if root p \<noteq> [] then [drv p, root p] @ drop 1 (parts p) else parts p);
          other = reparse fl other_path;
          to_abs_parts =
            (if root other \<noteq> [] then [drv other, root other] @ drop 1 (parts other)
             else parts other);
          n = length to_abs_parts
      in if (if n = 0 then anchored p
             else casefold_parts fl (take n abs_parts) \<noteq> casefold_parts fl to_abs_parts)
         then Inl ValueError
         else Inr \<lparr>drv = [], root = (if n = 1 then root p else []), parts = drop n abs_parts\<rparr>)"

text \<open>
  \<open>path.match(pattern)\<close>: \<open>ValueError\<close> for a pattern without components; otherwise the
  pattern's components are matched from the right with \<open>fnmatch.fnmatchcase\<close>, which is a
  parameter here.
\<close>

definition path_match ::
  "flavour \<Rightarrow> (string \<Rightarrow> string \<Rightarrow> bool) \<Rightarrow> purepath \<Rightarrow> string \<Rightarrow> error + bool" where
  "path_match fl fnmatchcase p path_pattern =
     (let pat = parse_parts fl [casefold fl path_pattern];
          cparts = casefold_parts fl (parts p)
      in if parts pat = [] then Inl ValueError
         else Inr
           (if drv pat \<noteq> [] \<and> drv pat \<noteq> casefold fl (drv p) then False
            else if root pat \<noteq> [] \<and> root pat \<noteq> casefold fl (root p) then False
            else if anchored pat then
              (if length (parts pat) \<noteq> length cparts then False
               else list_all (\<lambda>(part, pt). fnmatchcase part pt)
                      (zip (rev cparts) (rev (drop 1 (parts pat)))))
            else if length (parts pat) > length cparts then False
            else list_all (\<lambda>(part, pt). fnmatchcase part pt)
                   (zip (rev cparts) (rev (parts pat)))))"

text \<open>\<open>path / key\<close> for a string \<open>key\<close>, and for a path object.\<close>

definition truediv :: "flavour \<Rightarrow> purepath \<Rightarrow> string \<Rightarrow> purepath" where
  "truediv fl p key = join_parsed_parts fl p (parse_parts fl [key])"

definition truediv_path :: "flavour \<Rightarrow> purepath \<Rightarrow> purepath \<Rightarrow> purepath" where
  "truediv_path fl p q = join_parsed_parts fl p (reparse fl q)"

section \<open>Data structures\<close>

text \<open>\<open>FileInfo\<close>: a file with its metadata. The field \<open>size\<close> is named \<open>size_f\<close> here.\<close>

record FileInfo =
  path :: string
  size_f :: int
  ctime :: real
  mtime :: real
  hash :: "string option"
  folder_score :: "int option"

text \<open>
  \<open>DuplicateAction\<close>: the record of what was done with one duplicate. Its \<open>hash\<close> and \<open>size\<close>
  fields are named \<open>a_hash\<close> and \<open>a_size\<close>; the \<open>timestamp\<close> field, filled from the clock, is
  left out.
\<close>

record DuplicateAction =
  a_hash :: string
  a_size :: int
  kept_path :: string
  removed_path :: string
  reason :: string
  kept_ctime :: real
  kept_mtime :: real
  removed_ctime :: real
  removed_mtime :: real
  action :: string
  error :: "string option"

section \<open>DecisionEngine\<close>

definition PROJECT_INDICATORS :: "string list" where
  "PROJECT_INDICATORS =
     [''package.json'', ''package-lock.json'', ''yarn.lock'', ''pom.xml'',
      ''build.gradle'', ''settings.gradle'', ''angular.json'', ''tsconfig.json'',
      ''pyproject.toml'', ''setup.py'', ''requirements.txt'', ''Pipfile'',
      ''Cargo.toml'', ''go.mod'', ''composer.json'', ''.gitignore'', ''.git'',
      ''Makefile'', ''CMakeLists.txt'', ''.sln'', ''.csproj'', ''.vbproj'']"

definition PROJECT_FOLDERS :: "string list" where
  "PROJECT_FOLDERS =
     [''src'', ''source'', ''lib'', ''app'', ''components'', ''modules'',
      ''node_modules'', ''.git'', ''.svn'', ''dist'', ''build'', ''target'',
      ''bin'', ''obj'', ''__pycache__'', ''venv'', ''.env'']"

definition USER_CONTENT_KEYWORDS :: "string list" where
  "USER_CONTENT_KEYWORDS =
     [''documents'', ''photos'', ''pictures'', ''videos'', ''music'', ''downloads'',
      ''desktop'', ''onedrive'', ''dropbox'', ''google drive'']"

definition IGNORE_KEYWORDS :: "string list" where
  "IGNORE_KEYWORDS = [''temp'', ''tmp'', ''cache'', ''recycle'', ''trash'', ''$recycle.bin'']"

text \<open>
  What \<open>parent.iterdir()\<close> yields for one sibling: its name and the answers of \<open>is_file()\<close>
  and \<open>is_dir()\<close>, \<open>None\<close> when the call raises \<open>OSError\<close>. A listing maps the string of a
  directory to its entries, \<open>None\<close> when \<open>iterdir()\<close> itself raises \<open>OSError\<close>.
\<close>

record dir_entry =
  e_name :: string
  e_is_file :: "bool option"
  e_is_dir :: "bool option"

type_synonym listing = "string \<Rightarrow> dir_entry list option"

text \<open>
  The part of \<open>compute_folder_score\<close> inside \<open>try\<close>: an \<open>OSError\<close> leaves the score as it was
  when the exception was raised.
\<close>

definition sibling_score :: "dir_entry list option \<Rightarrow> int" where
  "sibling_score listed =
     (case listed of
        None \<Rightarrow> 0
      | Some siblings \<Rightarrow>
          (if \<not> list_all (\<lambda>s. e_is_file s \<noteq> None) siblings then 0
           else
             (let sibling_names = map (\<lambda>s. lower (e_name s))
                                    (filter (\<lambda>s. e_is_file s = Some True) siblings);
                  score1 = 50 * int (length (filter (\<lambda>indicator. lower indicator \<in> set sibling_names)
                                               PROJECT_INDICATORS))
              in if \<not> list_all (\<lambda>s. e_is_dir s \<noteq> None) siblings then score1
                 else
                   (let sibling_dirs = map (\<lambda>s. lower (e_name s))
                                         (filter (\<lambda>s. e_is_dir s = Some True) siblings);
                        score2 = score1
                          + 30 * int (length (filter (\<lambda>folder. lower folder \<in> set sibling_dirs)
                                                PROJECT_FOLDERS))
                    in if length (remdups sibling_names) > 10 then score2 + 20 else score2))))"

definition compute_folder_score :: "flavour \<Rightarrow> listing \<Rightarrow> string \<Rightarrow> int" where
  "compute_folder_score fl iterdir filepath =
     (let path_obj = Path fl filepath;
          parent_dir = parent path_obj;
          path_lower = lower (path_str fl parent_dir);
          score = sibling_score (iterdir (path_str fl parent_dir));
          score = score + 40 * int (length (filter (\<lambda>keyword. str_contains path_lower keyword)
                                               USER_CONTENT_KEYWORDS));
          score = score - 100 * int (length (filter (\<lambda>keyword. str_contains path_lower keyword)
                                                IGNORE_KEYWORDS));
          path_depth = int (length (parts path_obj))
      in score - path_depth * 2)"

definition get_earliest_time :: "FileInfo \<Rightarrow> real" where
  "get_earliest_time file_info = min (ctime file_info) (mtime file_info)"

text \<open>The loop that fills in the folder scores not computed yet (the record is updated in place).\<close>

definition ensure_score :: "flavour \<Rightarrow> listing \<Rightarrow> FileInfo \<Rightarrow> FileInfo" where
  "ensure_score fl iterdir file =
     (case folder_score file of
        None \<Rightarrow> file\<lparr>folder_score := Some (compute_folder_score fl iterdir (path file))\<rparr>
      | Some _ \<Rightarrow> file)"

text \<open>The sort key \<open>(-f.folder_score, earliest time, len(f.path))\<close>; tuples compare lexicographically.\<close>

definition sort_key_of :: "FileInfo \<Rightarrow> int \<times> real \<times> nat" where
  "sort_key_of f = (- the (folder_score f), get_earliest_time f, length (path f))"

text \<open>
  \<open>choose_file_to_keep\<close>. \<open>sorted\<close> is a stable sort, as \<^const>\<open>sort_key\<close> is. The result is the
  list with the scores filled in, and the keeper; \<open>sorted_files[0]\<close> on an empty list raises
  \<open>IndexError\<close>.
\<close>

definition choose_file_to_keep ::
  "flavour \<Rightarrow> listing \<Rightarrow> FileInfo list \<Rightarrow> error + (FileInfo list \<times> FileInfo)" where
  "choose_file_to_keep fl iterdir files =
     (if length files = 1 then Inr (files, files ! 0)
      else
        (let files' = map (ensure_score fl iterdir) files;
             sorted_files = sort_key sort_key_of files'
         in case sorted_files of
              [] \<Rightarrow> Inl IndexError
            | keeper # _ \<Rightarrow> Inr (files', keeper)))"

section \<open>The file system\<close>

text \<open>
  The cleaner changes the file system through \<open>os.remove\<close>, \<open>Path.mkdir\<close> and \<open>shutil.move\<close>.
  These are library functions; they are modelled after \<open>pathlib.py\<close> and \<open>shutil.py\<close> of
  Python 3.11 over a small file system: the map from path strings to the bytes of the regular
  files, the set of directories, the paths at which a change of the entry is refused (creating,
  replacing, renaming or removing it), the paths that cannot be opened for reading, the device
  a path lies on, the message of the \<open>OSError\<close> that a refused \<open>os.remove\<close> carries, and the
  trace of the mutating calls that the cleaner has issued. Paths are told apart by their
  strings. There are no links and no special files, metadata is not kept, and the source of a
  move is a regular file or missing (the cleaner moves the paths that the scan found as
  files): moving a directory is not modelled.
\<close>

datatype syscall = Remove string | Mkdir string | Move string string

datatype errno = ENOENT | EEXIST | EACCES | ENOTDIR | EISDIR | EXDEV

record world =
  contents :: "string \<rightharpoonup> bytes"
  dirs :: "string set"
  denied :: "string set"
  unreadable :: "string set"
  device :: "string \<Rightarrow> nat"
  strerror :: "string \<Rightarrow> string"
  calls :: "syscall list"

definition path_exists :: "world \<Rightarrow> string \<Rightarrow> bool" where
  "path_exists w p = (contents w p \<noteq> None \<or> p \<in> dirs w)"

text \<open>The directory that holds the entry \<open>p\<close>.\<close>

definition dirname :: "flavour \<Rightarrow> string \<Rightarrow> string" where
  "dirname fl p = path_str fl (parent (Path fl p))"

text \<open>The system calls; each one either fails with an error number or makes its change.\<close>

definition os_unlink :: "world \<Rightarrow> string \<Rightarrow> errno option \<times> world" where
  "os_unlink w p =
     (if p \<in> dirs w then (Some EISDIR, w)
      else if contents w p = None then (Some ENOENT, w)
      else if p \<in> denied w then (Some EACCES, w)
      else (None, w\<lparr>contents := (contents w)(p := None)\<rparr>))"

text \<open>
  \<open>os.rename\<close> of a regular file. Renaming a file onto itself does nothing and succeeds;
  an existing destination file is replaced on POSIX and refused on Windows.
\<close>

definition os_rename :: "flavour \<Rightarrow> world \<Rightarrow> string \<Rightarrow> string \<Rightarrow> errno option \<times> world" where
  "os_rename fl w src dst =
     (case contents w src of
        None \<Rightarrow> (Some ENOENT, w)
      | Some data \<Rightarrow>
          (if dst = src then (None, w)
           else if dst \<in> dirs w then (Some EISDIR, w)
           else if dirname fl dst \<notin> dirs w then (Some ENOENT, w)
           else if device w src \<noteq> device w dst then (Some EXDEV, w)
           else if src \<in> denied w \<or> dst \<in> denied w then (Some EACCES, w)
           else if fl = Windows \<and> contents w dst \<noteq> None then (Some EEXIST, w)
           else (None, w\<lparr>contents := ((contents w)(src := None))(dst \<mapsto> data)\<rparr>)))"

definition os_mkdir :: "flavour \<Rightarrow> world \<Rightarrow> purepath \<Rightarrow> errno option \<times> world" where
  "os_mkdir fl w p =
     (let s = path_str fl p; up = path_str fl (parent p) in
      if path_exists w s then (Some EEXIST, w)
      else if contents w up \<noteq> None then (Some ENOTDIR, w)
      else if up \<notin> dirs w then (Some ENOENT, w)
      else if s \<in> denied w then (Some EACCES, w)
      else (None, w\<lparr>dirs := insert s (dirs w)\<rparr>))"

text \<open>\<open>os.remove(p)\<close>, as the cleaner calls it.\<close>

definition os_remove :: "world \<Rightarrow> string \<Rightarrow> error option \<times> world" where
  "os_remove w p =
     (case os_unlink (w\<lparr>calls := calls w @ [Remove p]\<rparr>) p of
        (None, w1) \<Rightarrow> (None, w1)
      | (Some e, w1) \<Rightarrow> (Some OSError, w1))"

text \<open>
  \<open>Path.mkdir\<close>. With \<open>parents=False, exist_ok=True\<close>: any failure of \<open>os.mkdir\<close> other than
  a missing parent is forgiven when the path is a directory.
\<close>

definition mkdir_exist_ok :: "flavour \<Rightarrow> world \<Rightarrow> purepath \<Rightarrow> error option \<times> world" where
  "mkdir_exist_ok fl w p =
     (case os_mkdir fl w p of
        (None, w1) \<Rightarrow> (None, w1)
      | (Some e, w1) \<Rightarrow>
          (if e = ENOENT then (Some OSError, w1)
           else if path_str fl p \<in> dirs w1 then (None, w1)
           else (Some OSError, w1)))"

text \<open>
  With \<open>parents=True, exist_ok=True\<close>: when the parent is missing it is made first, in the
  same way, and the directory itself is tried once more.
\<close>

function path_mkdir :: "flavour \<Rightarrow> world \<Rightarrow> purepath \<Rightarrow> error option \<times> world" where
  "path_mkdir fl w p =
     (case os_mkdir fl w p of
        (None, w1) \<Rightarrow> (None, w1)
      | (Some e, w1) \<Rightarrow>
          (if e = ENOENT then
             (if path_eq fl (parent p) p then (Some OSError, w1)
              else
                (case path_mkdir fl w1 (parent p) of
                   (Some e', w2) \<Rightarrow> (Some e', w2)
                 | (None, w2) \<Rightarrow> mkdir_exist_ok fl w2 p))
           else if path_str fl p \<in> dirs w1 then (None, w1)
           else (Some OSError, w1)))"
  by pat_completeness auto
termination
proof (relation "measure (\<lambda>(fl, w, p). length (parts p))")
  fix fl :: flavour and p :: purepath
  assume "\<not> path_eq fl (parent p) p"
  then have "parts p \<noteq> []" "parent p = p\<lparr>parts := butlast (parts p)\<rparr>"
    by (auto simp: parent_def path_eq_def split: if_splits)
  then show "((fl, w1, parent p), (fl, w, p)) \<in> measure (\<lambda>(fl, w, p). length (parts p))"
    for w w1 :: world
    by simp
qed simp

declare path_mkdir.simps [simp del]

text \<open>\<open>directory.mkdir(parents=True, exist_ok=True)\<close>, as the cleaner calls it.\<close>

definition mkdir_parents :: "flavour \<Rightarrow> world \<Rightarrow> purepath \<Rightarrow> error option \<times> world" where
  "mkdir_parents fl w d = path_mkdir fl (w\<lparr>calls := calls w @ [Mkdir (path_str fl d)]\<rparr>) d"

text \<open>
  \<open>shutil.copy2(src, dst)\<close> for a destination that is not a directory: \<open>copyfile\<close> refuses to
  copy a file onto itself, opens the source for reading, then the destination for writing,
  and copies the bytes.
\<close>

definition copy2 :: "flavour \<Rightarrow> world \<Rightarrow> string \<Rightarrow> string \<Rightarrow> error option \<times> world" where
  "copy2 fl w src dst =
     (if src = dst \<and> path_exists w src then (Some OSError, w)
      else
        (case (if src \<in> unreadable w then None else contents w src) of
           None \<Rightarrow> (Some OSError, w)
         | Some data \<Rightarrow>
             (if dst \<in> dirs w \<or> dirname fl dst \<notin> dirs w \<or> dst \<in> denied w
              then (Some OSError, w)
              else (None, w\<lparr>contents := (contents w)(dst \<mapsto> data)\<rparr>))))"

text \<open>
  \<open>shutil.move(src, dst)\<close>, as the cleaner calls it. A destination that is an existing
  directory receives the file under its own name, unless that name is taken there. The file
  is renamed; when \<open>os.rename\<close> fails, whatever the reason, it is copied to the destination
  and then removed, and an error of either step ends the move where it stands: when the
  removal fails, the copy stays at the destination.
\<close>

definition real_destination :: "flavour \<Rightarrow> world \<Rightarrow> string \<Rightarrow> string \<Rightarrow> string" where
  "real_destination fl w src dst =
     (if dst \<in> dirs w
      then path_str fl (truediv fl (Path fl dst) (name (Path fl src)))
      else dst)"

definition shutil_move :: "flavour \<Rightarrow> world \<Rightarrow> string \<Rightarrow> string \<Rightarrow> error option \<times> world" where
  "shutil_move fl w src dst =
     (let w1 = w\<lparr>calls := calls w @ [Move src dst]\<rparr>;
          real_dst = real_destination fl w src dst in
      if dst \<in> dirs w \<and> path_exists w real_dst then (Some OSError, w1)
      else
        (case os_rename fl w1 src real_dst of
           (None, w2) \<Rightarrow> (None, w2)
         | (Some e, w2) \<Rightarrow>
             (case copy2 fl w2 src real_dst of
                (Some e', w3) \<Rightarrow> (Some e', w3)
              | (None, w3) \<Rightarrow>
                  (case os_unlink w3 src of
                     (None, w4) \<Rightarrow> (None, w4)
                   | (Some e', w4) \<Rightarrow> (Some OSError, w4)))))"

text \<open>Opening a file for reading: its bytes, or \<open>None\<close> when \<open>open\<close> raises \<open>OSError\<close>.\<close>

definition open_rb :: "world \<Rightarrow> string \<Rightarrow> bytes option" where
  "open_rb w p = (if p \<in> unreadable w then None else contents w p)"

section \<open>Hasher\<close>

definition CHUNK_SIZE :: nat where
  "CHUNK_SIZE = 65536"

text \<open>
  The digest object is the list of the chunks passed to \<open>update\<close>, in order; \<open>hexdigest\<close>
  applies SHA-256, a parameter, to their concatenation.
\<close>

definition hasher_update :: "bytes list \<Rightarrow> bytes \<Rightarrow> bytes list" where
  "hasher_update hasher chunk = hasher @ [chunk]"

definition hexdigest :: "(bytes \<Rightarrow> string) \<Rightarrow> bytes list \<Rightarrow> string" where
  "hexdigest sha256 hasher = sha256 (concat hasher)"

text \<open>\<open>f.seek(pos); f.read(n)\<close> on a file with the bytes \<open>data\<close>.\<close>

definition read_at :: "bytes \<Rightarrow> nat \<Rightarrow> nat \<Rightarrow> bytes" where
  "read_at data pos n = take n (drop pos data)"

text \<open>
  The chunks \<open>compute_partial_hash\<close> feeds to the digest for a file with the bytes \<open>data\<close>.
  The size that \<open>os.path.getsize\<close> reports is the length of \<open>data\<close>: the file does not
  change between that call and the reads.
\<close>

definition partial_hash_updates :: "bytes \<Rightarrow> bytes list" where
  "partial_hash_updates data =
     (let file_size = length data;
          hasher = hasher_update [] (read_at data 0 CHUNK_SIZE);
          hasher = (if file_size > 2 * CHUNK_SIZE
                    then hasher_update hasher (read_at data (file_size div 2) CHUNK_SIZE)
                    else hasher);
          hasher = (if file_size > 3 * CHUNK_SIZE
                    then hasher_update hasher (read_at data (file_size - CHUNK_SIZE) CHUNK_SIZE)
                    else hasher)
      in hasher)"

definition compute_partial_hash :: "(bytes \<Rightarrow> string) \<Rightarrow> world \<Rightarrow> string \<Rightarrow> string option" where
  "compute_partial_hash sha256 w filepath =
     (case open_rb w filepath of
        None \<Rightarrow> None
      | Some data \<Rightarrow> Some (hexdigest sha256 (partial_hash_updates data)))"

text \<open>The streaming loop of \<open>compute_full_hash\<close>: it reads chunks until one is empty.\<close>

function full_hash_updates :: "bytes \<Rightarrow> bytes list \<Rightarrow> bytes list" where
  "full_hash_updates data hasher =
     (let chunk = take CHUNK_SIZE data in
      if chunk = [] then hasher
      else full_hash_updates (drop CHUNK_SIZE data) (hasher_update hasher chunk))"
  by pat_completeness auto
termination
  by (relation "measure (\<lambda>(data, hasher). length data)") (auto simp: CHUNK_SIZE_def)

declare full_hash_updates.simps [simp del]

definition compute_full_hash :: "(bytes \<Rightarrow> string) \<Rightarrow> world \<Rightarrow> string \<Rightarrow> string option" where
  "compute_full_hash sha256 w filepath =
     (case open_rb w filepath of
        None \<Rightarrow> None
      | Some data \<Rightarrow> Some (hexdigest sha256 (full_hash_updates data [])))"

section \<open>QuarantineManager\<close>

record QuarantineManager =
  quarantine_dir :: purepath
  moves :: "(string \<times> string) list"

text \<open>\<open>QuarantineManager(quarantine_dir)\<close>, for the string of the quarantine directory.\<close>

definition QuarantineManager_init :: "flavour \<Rightarrow> string \<Rightarrow> QuarantineManager" where
  "QuarantineManager_init fl quarantine_dir_str =
     \<lparr>quarantine_dir = Path fl quarantine_dir_str, moves = []\<rparr>"

definition get_quarantine_path :: "flavour \<Rightarrow> QuarantineManager \<Rightarrow> string \<Rightarrow> purepath" where
  "get_quarantine_path fl qm original_path =
     (let original = Path fl original_path;
          drive = Path fl (drv original @ [CHR 0x5C]);
          relative =
            (case relative_to fl original drive of
               Inr rel \<Rightarrow> rel
             | Inl _ \<Rightarrow> Path fl (replace_char (CHR '':'') ''_drive'' (path_str fl original)))
      in truediv_path fl (quarantine_dir qm) relative)"

text \<open>\<open>move_to_quarantine\<close>: the result, the manager with its move log, and the world.\<close>

definition move_to_quarantine ::
  "flavour \<Rightarrow> QuarantineManager \<Rightarrow> world \<Rightarrow> string \<Rightarrow> bool \<times> QuarantineManager \<times> world" where
  "move_to_quarantine fl qm w filepath =
     (let source = Path fl filepath;
          dest = get_quarantine_path fl qm filepath in
      case mkdir_parents fl w (parent dest) of
        (Some e, w1) \<Rightarrow> (False, qm, w1)
      | (None, w1) \<Rightarrow>
          (case shutil_move fl w1 (path_str fl source) (path_str fl dest) of
             (Some e, w2) \<Rightarrow> (False, qm, w2)
           | (None, w2) \<Rightarrow>
               (True, qm\<lparr>moves := moves qm @ [(filepath, path_str fl dest)]\<rparr>, w2)))"

section \<open>DuplicateCleaner: processing the duplicate groups\<close>

text \<open>The command-line arguments the dispatcher reads.\<close>

record args =
  root_arg :: string
  apply_flag :: bool
  mode :: string
  confirm :: bool

text \<open>
  The state of a run: the world, the quarantine manager (\<open>None\<close> unless the cleaner was
  built in quarantine mode) and the actions the reporter has collected.
\<close>

record cleaner =
  fs :: world
  quarantine_manager :: "QuarantineManager option"
  actions :: "DuplicateAction list"

text \<open>What \<open>DuplicateCleaner.__init__\<close> sets up of this state.\<close>

definition init_cleaner :: "flavour \<Rightarrow> args \<Rightarrow> world \<Rightarrow> cleaner" where
  "init_cleaner fl a w =
     \<lparr>fs = w,
      quarantine_manager =
        (if mode a = ''quarantine''
         then Some (QuarantineManager_init fl
                      (path_str fl (truediv fl (Path fl (root_arg a)) ''_DUPLICATE_QUARANTINE'')))
         else None),
      actions = []\<rparr>"

text \<open>
  \<open>str(e)\<close> for the exception that \<open>os.remove(p)\<close> raised: the message the system gives.
\<close>

definition str_error :: "world \<Rightarrow> string \<Rightarrow> error \<Rightarrow> string" where
  "str_error w p e = strerror w p"

text \<open>\<open>_build_reason\<close>; comparing a score that is \<open>None\<close> raises \<open>TypeError\<close>.\<close>

definition build_reason :: "FileInfo \<Rightarrow> FileInfo \<Rightarrow> error + string" where
  "build_reason keeper removed =
     (case (folder_score keeper, folder_score removed) of
        (Some ks, Some rs) \<Rightarrow>
          (let reasons = (if ks > rs
                          then [''better folder score ('' @ str_int ks @ '' vs '' @ str_int rs @ '')'']
                          else []);
               reasons = (if get_earliest_time keeper < get_earliest_time removed
                          then reasons @ [''older file''] else reasons);
               reasons = (if length (path keeper) < length (path removed)
                          then reasons @ [''shorter path''] else reasons)
           in Inr (if reasons \<noteq> [] then join_with ''; '' reasons else ''default choice''))
      | _ \<Rightarrow> Inl TypeError)"

text \<open>
  The disposition of one file to remove: the exception that escapes (if any), the action
  type, the error recorded, and the new state.
\<close>

definition dispose ::
  "flavour \<Rightarrow> args \<Rightarrow> FileInfo \<Rightarrow> cleaner \<Rightarrow> error option \<times> string \<times> string option \<times> cleaner" where
  "dispose fl a file_info st =
     (if apply_flag a then
        (if mode a = ''delete'' then
           (if confirm a then
              (case os_remove (fs st) (path file_info) of
                 (None, w) \<Rightarrow> (None, ''delete'', None, st\<lparr>fs := w\<rparr>)
               | (Some e, w) \<Rightarrow>
                   (None, ''dry-run'', Some (str_error w (path file_info) e), st\<lparr>fs := w\<rparr>))
            else (None, ''dry-run'', Some ''Confirm flag not set'', st))
         else if mode a = ''quarantine'' then
           (case quarantine_manager st of
              None \<Rightarrow> (Some AttributeError, ''dry-run'', None, st)
            | Some qm \<Rightarrow>
                (case move_to_quarantine fl qm (fs st) (path file_info) of
                   (True, qm', w) \<Rightarrow>
                     (None, ''move'', None, st\<lparr>fs := w, quarantine_manager := Some qm'\<rparr>)
                 | (False, qm', w) \<Rightarrow>
                     (None, ''dry-run'', Some ''Move failed'',
                      st\<lparr>fs := w, quarantine_manager := Some qm'\<rparr>)))
         else if mode a = ''report'' then (None, ''report-only'', None, st)
         else (None, ''dry-run'', None, st))
      else (None, ''dry-run'', None, st))"

text \<open>The \<open>DuplicateAction\<close> built for a removed file.\<close>

definition make_action ::
  "string \<Rightarrow> FileInfo \<Rightarrow> FileInfo \<Rightarrow> string \<Rightarrow> string \<Rightarrow> string option \<Rightarrow> DuplicateAction" where
  "make_action file_hash keeper file_info why action_type err =
     \<lparr>a_hash = file_hash, a_size = size_f file_info,
      kept_path = path keeper, removed_path = path file_info,
      reason = why,
      kept_ctime = ctime keeper, kept_mtime = mtime keeper,
      removed_ctime = ctime file_info, removed_mtime = mtime file_info,
      action = action_type, error = err\<rparr>"

text \<open>The body of the loop over the files of one group.\<close>

definition process_file ::
  "flavour \<Rightarrow> args \<Rightarrow> string \<Rightarrow> FileInfo \<Rightarrow> FileInfo \<Rightarrow> cleaner \<Rightarrow> error option \<times> cleaner" where
  "process_file fl a file_hash keeper file_info st =
     (if path file_info = path keeper then (None, st)
      else
        (case build_reason keeper file_info of
           Inl e \<Rightarrow> (Some e, st)
         | Inr why \<Rightarrow>
             (case dispose fl a file_info st of
                (Some e, action_type, err, st') \<Rightarrow> (Some e, st')
              | (None, action_type, err, st') \<Rightarrow>
                  (None,
                   st'\<lparr>actions := actions st' @
                      [make_action file_hash keeper file_info why action_type err]\<rparr>))))"

fun process_files ::
  "flavour \<Rightarrow> args \<Rightarrow> string \<Rightarrow> FileInfo \<Rightarrow> FileInfo list \<Rightarrow> cleaner \<Rightarrow> error option \<times> cleaner" where
  "process_files fl a file_hash keeper [] st = (None, st)"
| "process_files fl a file_hash keeper (file_info # rest) st =
     (case process_file fl a file_hash keeper file_info st of
        (Some e, st') \<Rightarrow> (Some e, st')
      | (None, st') \<Rightarrow> process_files fl a file_hash keeper rest st')"

text \<open>
  \<open>process_duplicates\<close>: the loop over the groups, in the order of the dictionary. The
  listing read by the folder scores is the one of the world at that moment. An exception
  ends the run; the state reached is returned with it.
\<close>

fun process_duplicates ::
  "flavour \<Rightarrow> (world \<Rightarrow> listing) \<Rightarrow> args \<Rightarrow> (string \<times> FileInfo list) list \<Rightarrow> cleaner
     \<Rightarrow> error option \<times> cleaner" where
  "process_duplicates fl iterdir a [] st = (None, st)"
| "process_duplicates fl iterdir a ((file_hash, files) # groups) st =
     (case choose_file_to_keep fl (iterdir (fs st)) files of
        Inl e \<Rightarrow> (Some e, st)
      | Inr (files', keeper) \<Rightarrow>
          (case process_files fl a file_hash keeper files' st of
             (Some e, st') \<Rightarrow> (Some e, st')
           | (None, st') \<Rightarrow> process_duplicates fl iterdir a groups st'))"

text \<open>
  The files of a group that the loop does not skip, with the group's hash: those whose path
  is not the keeper's.
\<close>

definition files_to_remove ::
  "flavour \<Rightarrow> listing \<Rightarrow> string \<times> FileInfo list \<Rightarrow> (string \<times> string) list" where
  "files_to_remove fl ls g =
     (case choose_file_to_keep fl ls (snd g) of
        Inl e \<Rightarrow> []
      | Inr (files', keeper) \<Rightarrow>
          map (\<lambda>f. (fst g, path f)) (filter (\<lambda>f. path f \<noteq> path keeper) files'))"

section \<open>DuplicateCleaner: the hashing pipeline\<close>

text \<open>
  \<open>groups[key].append(value)\<close> on a \<open>defaultdict(list)\<close>. A dictionary is the list of its
  items in insertion order.
\<close>

fun group_append :: "'k \<Rightarrow> 'v \<Rightarrow> ('k \<times> 'v list) list \<Rightarrow> ('k \<times> 'v list) list" where
  "group_append k v [] = [(k, [v])]"
| "group_append k v ((k', vs) # rest) =
     (if k = k' then (k', vs @ [v]) # rest else (k', vs) # group_append k v rest)"

text \<open>\<open>if h:\<close> for an optional string: neither \<open>None\<close> nor the empty string.\<close>

definition truthy :: "string option \<Rightarrow> bool" where
  "truthy h = (case h of None \<Rightarrow> False | Some s \<Rightarrow> s \<noteq> [])"

text \<open>The loop that collects the partial hashes, over the files in the order of completion.\<close>

fun collect_partial ::
  "(bytes \<Rightarrow> string) \<Rightarrow> world \<Rightarrow> FileInfo list \<Rightarrow> (string \<times> FileInfo list) list
     \<Rightarrow> (string \<times> FileInfo list) list" where
  "collect_partial sha256 w [] partial_groups = partial_groups"
| "collect_partial sha256 w (file_info # rest) partial_groups =
     (let partial_hash = compute_partial_hash sha256 w (path file_info) in
      if truthy partial_hash
      then collect_partial sha256 w rest (group_append (the partial_hash) file_info partial_groups)
      else collect_partial sha256 w rest partial_groups)"

text \<open>The loop that collects the full hashes; it stores the hash in the file's record.\<close>

fun collect_full ::
  "(bytes \<Rightarrow> string) \<Rightarrow> world \<Rightarrow> FileInfo list \<Rightarrow> (string \<times> FileInfo list) list
     \<Rightarrow> (string \<times> FileInfo list) list" where
  "collect_full sha256 w [] hash_groups = hash_groups"
| "collect_full sha256 w (file_info # rest) hash_groups =
     (let full_hash = compute_full_hash sha256 w (path file_info) in
      if truthy full_hash
      then collect_full sha256 w rest
             (group_append (the full_hash) (file_info\<lparr>hash := full_hash\<rparr>) hash_groups)
      else collect_full sha256 w rest hash_groups)"

text \<open>
  The files submitted for the full hash. The tasks run in a thread pool and \<open>as_completed\<close>
  yields them in the order in which they finish: \<open>completion1\<close> is that order for the partial
  hashes, a rearrangement of the files submitted. The world does not change while files are
  hashed.
\<close>

definition candidate_files ::
  "(bytes \<Rightarrow> string) \<Rightarrow> (FileInfo list \<Rightarrow> FileInfo list) \<Rightarrow> world
     \<Rightarrow> (int \<times> FileInfo list) list \<Rightarrow> FileInfo list" where
  "candidate_files sha256 completion1 w size_groups =
     (let submitted = concat (map snd size_groups);
          partial_groups = collect_partial sha256 w (completion1 submitted) [];
          candidates = filter (\<lambda>files. length files > 1) (map snd partial_groups)
      in concat candidates)"

definition find_duplicates_by_hash ::
  "(bytes \<Rightarrow> string) \<Rightarrow> (FileInfo list \<Rightarrow> FileInfo list) \<Rightarrow> (FileInfo list \<Rightarrow> FileInfo list)
     \<Rightarrow> world \<Rightarrow> (int \<times> FileInfo list) list \<Rightarrow> (string \<times> FileInfo list) list" where
  "find_duplicates_by_hash sha256 completion1 completion2 w size_groups =
     (let candidates = candidate_files sha256 completion1 w size_groups;
          hash_groups = (if candidates \<noteq> []
                         then collect_full sha256 w (completion2 candidates) []
                         else [])
      in filter (\<lambda>(h, files). length files > 1) hash_groups)"

section \<open>Scanner\<close>

text \<open>
  The scanner's configuration as \<open>__init__\<close> leaves it: the excluded paths resolved, the
  extensions to skip in lower case. The counter \<open>files_scanned\<close> is threaded through the
  scan with the size groups.
\<close>

record Scanner =
  s_root :: purepath
  exclude_paths :: "purepath list"
  exclude_globs :: "string list"
  skip_extensions :: "string list"
  min_size :: int
  max_size :: int

text \<open>
  \<open>Path.resolve()\<close> asks the file system; it is a parameter, with \<open>Inl\<close> for the exception
  it raises. So is \<open>fnmatch.fnmatchcase\<close>.
\<close>

type_synonym resolver = "purepath \<Rightarrow> error + purepath"

type_synonym fnmatcher = "string \<Rightarrow> string \<Rightarrow> bool"

fun resolve_all :: "resolver \<Rightarrow> purepath list \<Rightarrow> error + purepath list" where
  "resolve_all resolve [] = Inr []"
| "resolve_all resolve (p # ps) =
     (case resolve p of
        Inl e \<Rightarrow> Inl e
      | Inr r \<Rightarrow> (case resolve_all resolve ps of Inl e \<Rightarrow> Inl e | Inr rs \<Rightarrow> Inr (r # rs)))"

definition Scanner_init ::
  "flavour \<Rightarrow> resolver \<Rightarrow> string \<Rightarrow> string list \<Rightarrow> string list \<Rightarrow> string list \<Rightarrow> int \<Rightarrow> int
     \<Rightarrow> error + Scanner" where
  "Scanner_init fl resolve root_dir excluded globs exts min_sz max_sz =
     (case resolve_all resolve (map (Path fl) excluded) of
        Inl e \<Rightarrow> Inl e
      | Inr resolved \<Rightarrow>
          Inr \<lparr>s_root = Path fl root_dir, exclude_paths = resolved, exclude_globs = globs,
               skip_extensions = map lower exts, min_size = min_sz, max_size = max_sz\<rparr>)"

text \<open>\<open>resolved == excluded or excluded in resolved.parents\<close>, for some excluded path.\<close>

definition under_excluded :: "flavour \<Rightarrow> Scanner \<Rightarrow> purepath \<Rightarrow> bool" where
  "under_excluded fl sc resolved =
     list_ex (\<lambda>excluded. path_eq fl resolved excluded
                \<or> list_ex (\<lambda>ancestor. path_eq fl ancestor excluded) (parents resolved))
       (exclude_paths sc)"

text \<open>The loop over the glob patterns; \<open>match\<close> raises \<open>ValueError\<close> on an empty pattern.\<close>

fun glob_loop :: "flavour \<Rightarrow> fnmatcher \<Rightarrow> purepath \<Rightarrow> string list \<Rightarrow> error + bool" where
  "glob_loop fl fnmatchcase p [] = Inr False"
| "glob_loop fl fnmatchcase p (pattern # rest) =
     (case path_match fl fnmatchcase p (lower pattern) of
        Inl e \<Rightarrow> Inl e
      | Inr True \<Rightarrow> Inr True
      | Inr False \<Rightarrow> glob_loop fl fnmatchcase p rest)"

definition should_skip_path ::
  "flavour \<Rightarrow> resolver \<Rightarrow> fnmatcher \<Rightarrow> Scanner \<Rightarrow> purepath \<Rightarrow> error + bool" where
  "should_skip_path fl resolve fnmatchcase sc p =
     (case resolve p of
        Inl e \<Rightarrow> (if e = OSError \<or> e = RuntimeError then Inr True else Inl e)
      | Inr resolved \<Rightarrow>
          (if under_excluded fl sc resolved then Inr True
           else
             (let path_string = lower (path_str fl p) in
              case glob_loop fl fnmatchcase (Path fl path_string) (exclude_globs sc) of
                Inl e \<Rightarrow> Inl e
              | Inr True \<Rightarrow> Inr True
              | Inr False \<Rightarrow> Inr (lower (suffix p) \<in> set (skip_extensions sc)))))"

text \<open>
  The tree that \<open>os.walk\<close> walks: a file with what \<open>stat()\<close> returns (\<open>None\<close> when it raises
  \<open>OSError\<close>), or a directory with its name, whether it is a symbolic link, and its entries.
\<close>

record stat_result =
  st_size :: int
  st_ctime :: real
  st_mtime :: real

datatype node = FileNode string "stat_result option" | DirNode string bool "node list"

type_synonym scan_state = "(int \<times> FileInfo list) list \<times> nat"

text \<open>\<open>dirs[:] = [d for d in dirs if not self.should_skip_path(root_path / d)]\<close>.\<close>

fun prune_dirs ::
  "flavour \<Rightarrow> resolver \<Rightarrow> fnmatcher \<Rightarrow> Scanner \<Rightarrow> purepath \<Rightarrow> node list \<Rightarrow> error + node list" where
  "prune_dirs fl resolve fnmatchcase sc root_path [] = Inr []"
| "prune_dirs fl resolve fnmatchcase sc root_path (FileNode f st # entries) =
     prune_dirs fl resolve fnmatchcase sc root_path entries"
| "prune_dirs fl resolve fnmatchcase sc root_path (DirNode d link children # entries) =
     (case should_skip_path fl resolve fnmatchcase sc (truediv fl root_path d) of
        Inl e \<Rightarrow> Inl e
      | Inr skip \<Rightarrow>
          (case prune_dirs fl resolve fnmatchcase sc root_path entries of
             Inl e \<Rightarrow> Inl e
           | Inr kept \<Rightarrow> Inr (if skip then kept else DirNode d link children # kept)))"

text \<open>The loop over the files of one directory.\<close>

fun scan_files ::
  "flavour \<Rightarrow> resolver \<Rightarrow> fnmatcher \<Rightarrow> Scanner \<Rightarrow> purepath \<Rightarrow> node list \<Rightarrow> scan_state
     \<Rightarrow> error + scan_state" where
  "scan_files fl resolve fnmatchcase sc root_path [] state = Inr state"
| "scan_files fl resolve fnmatchcase sc root_path (DirNode d link children # entries) state =
     scan_files fl resolve fnmatchcase sc root_path entries state"
| "scan_files fl resolve fnmatchcase sc root_path (FileNode filename st # entries)
       (size_groups, files_scanned) =
     (let filepath = truediv fl root_path filename in
      case should_skip_path fl resolve fnmatchcase sc filepath of
        Inl e \<Rightarrow> Inl e
      | Inr True \<Rightarrow>
          scan_files fl resolve fnmatchcase sc root_path entries (size_groups, files_scanned)
      | Inr False \<Rightarrow>
          (case st of
             None \<Rightarrow>
               scan_files fl resolve fnmatchcase sc root_path entries (size_groups, files_scanned)
           | Some stat \<Rightarrow>
               (if st_size stat < min_size sc \<or> st_size stat > max_size sc
                then scan_files fl resolve fnmatchcase sc root_path entries
                       (size_groups, files_scanned)
                else
                  (let file_info = \<lparr>path = path_str fl filepath, size_f = st_size stat,
                                     ctime = st_ctime stat, mtime = st_mtime stat,
                                     hash = None, folder_score = None\<rparr>
                   in scan_files fl resolve fnmatchcase sc root_path entries
                        (group_append (st_size stat) file_info size_groups,
                         files_scanned + 1)))))"

text \<open>
  \<open>os.walk(top, topdown=True, followlinks=False)\<close> with the body of the loop of \<open>scan\<close>: the
  directories are pruned, the files of the directory are scanned, then the directories kept
  are walked in turn, except the symbolic links.
\<close>

function walk_dir ::
    "flavour \<Rightarrow> resolver \<Rightarrow> fnmatcher \<Rightarrow> Scanner \<Rightarrow> purepath \<Rightarrow> node list \<Rightarrow> scan_state
       \<Rightarrow> error + scan_state"
  and walk_dirs ::
    "flavour \<Rightarrow> resolver \<Rightarrow> fnmatcher \<Rightarrow> Scanner \<Rightarrow> purepath \<Rightarrow> node list \<Rightarrow> scan_state
       \<Rightarrow> error + scan_state" where
  "walk_dir fl resolve fnmatchcase sc root_path entries state =
     (case prune_dirs fl resolve fnmatchcase sc root_path entries of
        Inl e \<Rightarrow> Inl e
      | Inr subdirs \<Rightarrow>
          (case scan_files fl resolve fnmatchcase sc root_path entries state of
             Inl e \<Rightarrow> Inl e
           | Inr state' \<Rightarrow> walk_dirs fl resolve fnmatchcase sc root_path subdirs state'))"
| "walk_dirs fl resolve fnmatchcase sc root_path [] state = Inr state"
| "walk_dirs fl resolve fnmatchcase sc root_path (FileNode f st # subdirs) state =
     walk_dirs fl resolve fnmatchcase sc root_path subdirs state"
| "walk_dirs fl resolve fnmatchcase sc root_path (DirNode d link children # subdirs) state =
     (if link then walk_dirs fl resolve fnmatchcase sc root_path subdirs state
      else
        (case walk_dir fl resolve fnmatchcase sc (truediv fl root_path d) children state of
           Inl e \<Rightarrow> Inl e
         | Inr state' \<Rightarrow> walk_dirs fl resolve fnmatchcase sc root_path subdirs state'))"
  by pat_completeness auto
termination
proof (relation "measure (\<lambda>x. case x of
          Inl (fl, resolve, fnmatchcase, sc, root_path, entries, state) \<Rightarrow> 2 * size_list size entries + 1
        | Inr (fl, resolve, fnmatchcase, sc, root_path, subdirs, state) \<Rightarrow> 2 * size_list size subdirs)",
    goal_cases)
  case 1
  show ?case by simp
next
  case (2 fl resolve fnmatchcase sc root_path entries state subdirs state')
  have pruned: "size_list size kept \<le> size_list size ns"
    if "prune_dirs fl resolve fnmatchcase sc root_path ns = Inr kept" for ns kept
    using that
  proof (induction ns arbitrary: kept)
    case Nil
    then show ?case by simp
  next
    case (Cons n ns)
    show ?case
    proof (cases n)
      case (FileNode f st)
      with Cons show ?thesis by fastforce
    next
      case (DirNode d link children)
      with Cons.prems obtain skip kept' where
        k: "prune_dirs fl resolve fnmatchcase sc root_path ns = Inr kept'"
        "kept = (if skip then kept' else DirNode d link children # kept')"
        by (auto split: sum.splits)
      from Cons.IH[OF k(1)] k(2) DirNode show ?thesis by auto
    qed
  qed
  from 2 pruned[of entries subdirs] show ?case by simp
next
  case 3
  then show ?case by simp
next
  case 4
  then show ?case by simp
next
  case 5
  then show ?case by simp
next
  case 6
  then show ?case by simp
qed

text \<open>\<open>scan\<close>: the walk from the root, then the sizes that only one file has are dropped.\<close>

definition scan ::
  "flavour \<Rightarrow> resolver \<Rightarrow> fnmatcher \<Rightarrow> Scanner \<Rightarrow> node list
     \<Rightarrow> error + ((int \<times> FileInfo list) list \<times> nat)" where
  "scan fl resolve fnmatchcase sc tree =
     (case walk_dir fl resolve fnmatchcase sc (s_root sc) tree ([], 0) of
        Inl e \<Rightarrow> Inl e
      | Inr (size_groups, files_scanned) \<Rightarrow>
          Inr (filter (\<lambda>(sz, files). length files > 1) size_groups, files_scanned))"

section \<open>Concrete inputs\<close>

text \<open>Files as the repository's tests build them, used to evaluate the model.\<close>

definition cache_file :: FileInfo where
  "cache_file = \<lparr>path = ''/temp/cache/file.txt'', size_f = 100, ctime = 1000, mtime = 1000,
                  hash = None, folder_score = Some (- 100)\<rparr>"

definition documents_file :: FileInfo where
  "documents_file = \<lparr>path = ''/Documents/file.txt'', size_f = 100, ctime = 1000, mtime = 1000,
                      hash = None, folder_score = Some 50\<rparr>"

definition tie_file1 :: FileInfo where
  "tie_file1 = \<lparr>path = ''/path/file1.txt'', size_f = 100, ctime = 1000, mtime = 2000,
                 hash = None, folder_score = Some 50\<rparr>"

definition tie_file2 :: FileInfo where
  "tie_file2 = \<lparr>path = ''/path/file2.txt'', size_f = 100, ctime = 3000, mtime = 1000,
                 hash = None, folder_score = Some 50\<rparr>"

text \<open>
  A well-placed file that is newer and lies deeper than \<open>cache_file\<close>; two files with the
  same score of which the one with the longer path has the earlier time stamp; and two files
  with the same score and the same earliest time stamp.
\<close>

definition album_file :: FileInfo where
  "album_file = \<lparr>path = ''/Documents/2019/album/file.txt'', size_f = 100, ctime = 5000,
                  mtime = 6000, hash = None, folder_score = Some 50\<rparr>"

definition early_file :: FileInfo where
  "early_file = \<lparr>path = ''/data/copy/photo.jpg'', size_f = 100, ctime = 3000, mtime = 1000,
                  hash = None, folder_score = Some 50\<rparr>"

definition late_file :: FileInfo where
  "late_file = \<lparr>path = ''/data/photo.jpg'', size_f = 100, ctime = 2000, mtime = 2500,
                 hash = None, folder_score = Some 50\<rparr>"

definition long_path_file :: FileInfo where
  "long_path_file = \<lparr>path = ''/a/b/f.txt'', size_f = 100, ctime = 2000, mtime = 1000,
                      hash = None, folder_score = Some 50\<rparr>"

definition short_path_file :: FileInfo where
  "short_path_file = \<lparr>path = ''/a/f.txt'', size_f = 100, ctime = 1000, mtime = 2000,
                       hash = None, folder_score = Some 50\<rparr>"

definition no_listing :: listing where
  "no_listing = (\<lambda>d. None)"

definition demo_world :: world where
  "demo_world =
     \<lparr>contents = [''/temp/cache/file.txt'' \<mapsto> [1, 2, 3], ''/Documents/file.txt'' \<mapsto> [1, 2, 3]],
      dirs = {}, denied = {}, unreadable = {}, device = (\<lambda>p. 0),
      strerror = (\<lambda>p. ''Permission denied''), calls = []\<rparr>"

definition demo_groups :: "(string \<times> FileInfo list) list" where
  "demo_groups = [(''abc123'', [cache_file, documents_file])]"

definition demo_cleaner :: cleaner where
  "demo_cleaner = \<lparr>fs = demo_world, quarantine_manager = None, actions = []\<rparr>"

definition dry_run_args :: args where
  "dry_run_args = \<lparr>root_arg = ''/'', apply_flag = False, mode = ''delete'', confirm = True\<rparr>"

definition unconfirmed_args :: args where
  "unconfirmed_args = \<lparr>root_arg = ''/'', apply_flag = True, mode = ''delete'', confirm = False\<rparr>"

text \<open>Windows paths, written as their components.\<close>

definition win_path :: "string list \<Rightarrow> string" where
  "win_path components = join_with [CHR 0x5C] components"

definition kept_copy :: FileInfo where
  "kept_copy = \<lparr>path = win_path [''D:'', ''data'', ''a.txt''], size_f = 3, ctime = 1000,
                 mtime = 1000, hash = Some ''abc123'', folder_score = Some 50\<rparr>"

definition extra_copy :: FileInfo where
  "extra_copy = \<lparr>path = win_path [''D:'', ''data'', ''dup'', ''a.txt''], size_f = 3, ctime = 1000,
                  mtime = 1000, hash = Some ''abc123'', folder_score = Some 10\<rparr>"

definition quarantine_args :: args where
  "quarantine_args =
     \<lparr>root_arg = win_path [''D:'', ''data''], apply_flag = True, mode = ''quarantine'',
      confirm = False\<rparr>"

text \<open>
  The two copies under \<open>D:\data\<close>; the same with the entry of the second copy locked, and
  with the second copy gone.
\<close>

definition win_world :: world where
  "win_world =
     \<lparr>contents = [path kept_copy \<mapsto> [1, 2, 3], path extra_copy \<mapsto> [1, 2, 3]],
      dirs = {win_path [''D:'', []], win_path [''D:'', ''data''],
              win_path [''D:'', ''data'', ''dup'']},
      denied = {}, unreadable = {}, device = (\<lambda>p. 0),
      strerror = (\<lambda>p. ''Permission denied''), calls = []\<rparr>"

definition locked_world :: world where
  "locked_world = win_world\<lparr>denied := {path extra_copy}\<rparr>"

definition gone_world :: world where
  "gone_world = win_world\<lparr>contents := [path kept_copy \<mapsto> [1, 2, 3]]\<rparr>"

definition demo_manager :: QuarantineManager where
  "demo_manager =
     QuarantineManager_init Windows (win_path [''D:'', ''data'', ''_DUPLICATE_QUARANTINE''])"

definition quarantined_copy :: string where
  "quarantined_copy = win_path [''D:'', ''data'', ''_DUPLICATE_QUARANTINE'', ''data'', ''dup'', ''a.txt'']"

text \<open>Files of 12 bytes, 150000 bytes and 200000 bytes, and a digest that hides nothing.\<close>

definition hashing_world :: world where
  "hashing_world =
     \<lparr>contents = [''small.txt'' \<mapsto> replicate 12 65, ''medium.bin'' \<mapsto> replicate 150000 65,
                  ''large.bin'' \<mapsto> replicate 200000 65],
      dirs = {}, denied = {}, unreadable = {''locked.bin''}, device = (\<lambda>p. 0),
      strerror = (\<lambda>p. ''Permission denied''), calls = []\<rparr>"

definition plain_digest :: "bytes \<Rightarrow> string" where
  "plain_digest data = map (\<lambda>b. char_of (unat b)) data"

text \<open>Two files with the same five bytes, one with other bytes, one that cannot be read.\<close>

definition file_named :: "string \<Rightarrow> FileInfo" where
  "file_named p = \<lparr>path = p, size_f = 5, ctime = 1000, mtime = 1000, hash = None,
                    folder_score = None\<rparr>"

definition pipeline_world :: world where
  "pipeline_world =
     \<lparr>contents = [''a.txt'' \<mapsto> [104, 101, 108, 108, 111], ''b.txt'' \<mapsto> [104, 101, 108, 108, 111],
                  ''c.txt'' \<mapsto> [119, 111, 114, 108, 100], ''d.txt'' \<mapsto> [104, 101, 108, 108, 111]],
      dirs = {}, denied = {}, unreadable = {''d.txt''}, device = (\<lambda>p. 0),
      strerror = (\<lambda>p. ''Permission denied''), calls = []\<rparr>"

definition pipeline_input :: "(int \<times> FileInfo list) list" where
  "pipeline_input =
     [(5, [file_named ''a.txt'', file_named ''c.txt'', file_named ''b.txt'', file_named ''d.txt''])]"

text \<open>
  A resolver for a file system without links (every path resolves to itself, except one
  that cannot be resolved), and a matcher for the patterns \<open>*suffix\<close> and literal names.
\<close>

definition resolve_self :: resolver where
  "resolve_self p = (if name p = ''broken.lnk'' then Inl OSError else Inr p)"

definition star_fnmatch :: fnmatcher where
  "star_fnmatch part pat =
     (if take 1 pat = ''*'' then starts_with (rev part) (rev (drop 1 pat)) else part = pat)"

definition demo_scanner :: Scanner where
  "demo_scanner =
     \<lparr>s_root = Path Windows ''D:/data'',
      exclude_paths = [Path Windows ''D:/data/excluded''],
      exclude_globs = [''*.TMP''],
      skip_extensions = [''.log''],
      min_size = 1, max_size = 1000\<rparr>"

definition empty_glob_scanner :: Scanner where
  "empty_glob_scanner = demo_scanner\<lparr>exclude_globs := ['''']\<rparr>"

text \<open>A directory tree under \<open>D:\data\<close> and the records of three of its files.\<close>

definition plain_file :: "string \<Rightarrow> int \<Rightarrow> node" where
  "plain_file filename sz = FileNode filename (Some \<lparr>st_size = sz, st_ctime = 1000, st_mtime = 2000\<rparr>)"

definition demo_tree :: "node list" where
  "demo_tree =
     [plain_file ''a.txt'' 5, plain_file ''b.txt'' 5, plain_file ''c.txt'' 6,
      plain_file ''notes.log'' 5, plain_file ''big.bin'' 5000, FileNode ''gone.txt'' None,
      DirNode ''sub'' False [plain_file ''d.txt'' 5, plain_file ''e.tmp'' 5],
      DirNode ''excluded'' False [plain_file ''f.txt'' 5],
      DirNode ''link'' True [plain_file ''g.txt'' 5]]"

definition scanned_file :: "string list \<Rightarrow> FileInfo" where
  "scanned_file components =
     \<lparr>path = win_path components, size_f = 5, ctime = 1000, mtime = 2000, hash = None,
      folder_score = None\<rparr>"

definition demo_bucket :: "FileInfo list" where
  "demo_bucket =
     [scanned_file [''D:'', ''data'', ''a.txt''], scanned_file [''D:'', ''data'', ''b.txt''],
      scanned_file [''D:'', ''data'', ''sub'', ''d.txt'']]"

text \<open>
  The quarantine managers that \<open>DuplicateCleaner\<close> builds for the root \<open>..\photos\<close> on
  Windows and for the root \<open>/home/user/photos\<close> on a POSIX system.
\<close>

definition relative_root_args :: args where
  "relative_root_args =
     \<lparr>root_arg = win_path [''..'', ''photos''], apply_flag = True, mode = ''quarantine'',
      confirm = False\<rparr>"

definition relative_root_manager :: QuarantineManager where
  "relative_root_manager =
     the (quarantine_manager (init_cleaner Windows relative_root_args demo_world))"

definition posix_args :: args where
  "posix_args =
     \<lparr>root_arg = ''/home/user/photos'', apply_flag = True, mode = ''quarantine'',
      confirm = False\<rparr>"

definition posix_manager :: QuarantineManager where
  "posix_manager = the (quarantine_manager (init_cleaner Posix posix_args demo_world))"

text \<open>
  Two copies under \<open>/home/user/photos\<close> on a POSIX system, where nothing is refused, and
  their records.
\<close>

definition posix_kept :: FileInfo where
  "posix_kept = \<lparr>path = ''/home/user/photos/a.txt'', size_f = 3, ctime = 1000, mtime = 1000,
                  hash = Some ''abc123'', folder_score = Some 50\<rparr>"

definition posix_extra :: FileInfo where
  "posix_extra = \<lparr>path = ''/home/user/photos/copy/a.txt'', size_f = 3, ctime = 1000,
                   mtime = 1000, hash = Some ''abc123'', folder_score = Some 10\<rparr>"

definition posix_world :: world where
  "posix_world =
     \<lparr>contents = [path posix_kept \<mapsto> [1, 2, 3], path posix_extra \<mapsto> [1, 2, 3]],
      dirs = {''/'', ''/home'', ''/home/user'', ''/home/user/photos'',
              ''/home/user/photos/copy''},
      denied = {}, unreadable = {}, device = (\<lambda>p. 0),
      strerror = (\<lambda>p. ''Permission denied''), calls = []\<rparr>"

section \<open>KeeperSelector: the order of selection\<close>

lemma sort_key_hd_min:
  assumes "sort_key f xs = k # rest"
  shows "k \<in> set xs \<and> (\<forall>x\<in>set xs. f k \<le> f x)"
proof -
  have s: "sorted (map f (k # rest))"
    using assms sorted_sort_key[of f xs] by simp
  have m: "set (k # rest) = set xs"
    using assms set_sort[of f xs] by simp
  show ?thesis using s m by auto
qed

lemma sort_key_all_equal:
  assumes "\<forall>x\<in>set xs. f x = c"
  shows "sort_key f xs = xs"
proof -
  have "filter (\<lambda>y. f y = c) (sort_key f xs) = filter (\<lambda>y. f y = c) xs"
    by (rule sort_key_stable)
  moreover have "filter (\<lambda>y. f y = c) (sort_key f xs) = sort_key f xs"
    using assms by (intro filter_True) simp
  moreover have "filter (\<lambda>y. f y = c) xs = xs"
    using assms by (intro filter_True) simp
  ultimately show ?thesis by simp
qed

lemma ensure_score_defined: "folder_score (ensure_score fl iterdir f) \<noteq> None"
  by (simp add: ensure_score_def split: option.splits)

lemma ensure_score_id: "folder_score f \<noteq> None \<Longrightarrow> ensure_score fl iterdir f = f"
  by (auto simp: ensure_score_def split: option.splits)

lemma ensure_score_path: "path (ensure_score fl iterdir f) = path f"
  by (simp add: ensure_score_def split: option.splits)

lemma choose_file_to_keep_many:
  assumes "2 \<le> length files"
  shows "\<exists>keeper rest. sort_key sort_key_of (map (ensure_score fl iterdir) files) = keeper # rest
           \<and> choose_file_to_keep fl iterdir files
               = Inr (map (ensure_score fl iterdir) files, keeper)"
proof -
  let ?fs = "map (ensure_score fl iterdir) files"
  have "length (sort_key sort_key_of ?fs) = length files" by simp
  with assms obtain keeper rest where s: "sort_key sort_key_of ?fs = keeper # rest"
    by (cases "sort_key sort_key_of ?fs") auto
  moreover have "length files \<noteq> 1" using assms by simp
  ultimately show ?thesis by (simp add: choose_file_to_keep_def Let_def)
qed

lemmas fixture_defs =
  cache_file_def documents_file_def tie_file1_def tie_file2_def no_listing_def

lemmas order_fixture_defs =
  cache_file_def album_file_def early_file_def late_file_def long_path_file_def
  short_path_file_def no_listing_def

text \<open>
  C1. For a list of two or more files, \<open>choose_file_to_keep\<close> returns a file of the list
  (with the folder scores filled in where they were missing; the list itself when all scores
  are defined) that is least in the lexicographic order on
  \<open>(-score, min(ctime, mtime), len(path))\<close>: every file of the list has a lower score than the
  keeper, or the same score and a later \<open>min(ctime, mtime)\<close>, or the same score, the same
  \<open>min(ctime, mtime)\<close> and a path at least as long. In particular: no file has a higher score
  than the keeper; a file whose score strictly exceeds every other file's is the keeper,
  whatever the timestamps and path lengths; among the files with the keeper's score none has
  an earlier \<open>min(ctime, mtime)\<close>; and among those that tie on both, none has a shorter path.
\<close>

theorem choose_file_to_keep_lexicographic_minimum:
  assumes "2 \<le> length files"
  shows "\<exists>files' keeper.
           choose_file_to_keep fl iterdir files = Inr (files', keeper)
         \<and> files' = map (ensure_score fl iterdir) files
         \<and> ((\<forall>f\<in>set files. folder_score f \<noteq> None) \<longrightarrow> files' = files)
         \<and> keeper \<in> set files'
         \<and> (\<forall>f\<in>set files'.
               the (folder_score f) < the (folder_score keeper)
             \<or> (the (folder_score f) = the (folder_score keeper)
                \<and> (min (ctime keeper) (mtime keeper) < min (ctime f) (mtime f)
                   \<or> (min (ctime keeper) (mtime keeper) = min (ctime f) (mtime f)
                      \<and> length (path keeper) \<le> length (path f)))))
         \<and> (\<forall>f\<in>set files'. the (folder_score f) \<le> the (folder_score keeper))
         \<and> (\<forall>f\<in>set files'.
               (\<forall>g\<in>set files'. g \<noteq> f \<longrightarrow> the (folder_score g) < the (folder_score f))
               \<longrightarrow> keeper = f)
         \<and> (\<forall>f\<in>set files'. the (folder_score f) = the (folder_score keeper)
               \<longrightarrow> min (ctime keeper) (mtime keeper) \<le> min (ctime f) (mtime f))
         \<and> (\<forall>f\<in>set files'. the (folder_score f) = the (folder_score keeper)
                 \<and> min (ctime f) (mtime f) = min (ctime keeper) (mtime keeper)
               \<longrightarrow> length (path keeper) \<le> length (path f))"
proof -
  let ?fs = "map (ensure_score fl iterdir) files"
  let ?score = "\<lambda>f::FileInfo. the (folder_score f)"
  let ?time = "\<lambda>f::FileInfo. min (ctime f) (mtime f)"
  obtain keeper rest where
    s: "sort_key sort_key_of ?fs = keeper # rest" and
    c: "choose_file_to_keep fl iterdir files = Inr (?fs, keeper)"
    using choose_file_to_keep_many[OF assms] by blast
  have mem: "keeper \<in> set ?fs" and
    least: "\<forall>f\<in>set ?fs. sort_key_of keeper \<le> sort_key_of f"
    using sort_key_hd_min[OF s] by blast+
  have le: "\<forall>f\<in>set ?fs.
      ?score f < ?score keeper
    \<or> (?score f = ?score keeper
       \<and> (?time keeper < ?time f
          \<or> (?time keeper = ?time f \<and> length (path keeper) \<le> length (path f))))"
  proof
    fix f assume "f \<in> set ?fs"
    with least have "sort_key_of keeper \<le> sort_key_of f" by blast
    then show "?score f < ?score keeper
      \<or> (?score f = ?score keeper
         \<and> (?time keeper < ?time f
            \<or> (?time keeper = ?time f \<and> length (path keeper) \<le> length (path f))))"
      unfolding sort_key_of_def get_earliest_time_def less_eq_prod_def less_prod_def
      by auto
  qed
  have same: "(\<forall>f\<in>set files. folder_score f \<noteq> None) \<longrightarrow> ?fs = files"
    by (simp add: ensure_score_id map_idI)
  have score: "\<forall>f\<in>set ?fs. ?score f \<le> ?score keeper"
    using le by auto
  have top: "\<forall>f\<in>set ?fs.
      (\<forall>g\<in>set ?fs. g \<noteq> f \<longrightarrow> ?score g < ?score f) \<longrightarrow> keeper = f"
  proof (intro ballI impI)
    fix f assume f: "f \<in> set ?fs"
      and best: "\<forall>g\<in>set ?fs. g \<noteq> f \<longrightarrow> ?score g < ?score f"
    show "keeper = f"
    proof (rule ccontr)
      assume "keeper \<noteq> f"
      with best mem have "?score keeper < ?score f" by blast
      moreover have "?score f \<le> ?score keeper" using score f by blast
      ultimately show False by simp
    qed
  qed
  have early: "\<forall>f\<in>set ?fs. ?score f = ?score keeper \<longrightarrow> ?time keeper \<le> ?time f"
    using le by auto
  have short: "\<forall>f\<in>set ?fs. ?score f = ?score keeper \<and> ?time f = ?time keeper
      \<longrightarrow> length (path keeper) \<le> length (path f)"
    using le by auto
  show ?thesis
    using c same mem le score top early short by blast
qed

theorem choose_file_to_keep_lexicographic_minimum_witness:
  "2 \<le> length [cache_file, album_file]
   \<and> choose_file_to_keep Posix no_listing [cache_file, album_file]
       = Inr ([cache_file, album_file], album_file)
   \<and> the (folder_score cache_file) < the (folder_score album_file)
   \<and> min (ctime cache_file) (mtime cache_file) < min (ctime album_file) (mtime album_file)
   \<and> length (path cache_file) < length (path album_file)
   \<and> choose_file_to_keep Posix no_listing [late_file, early_file]
       = Inr ([late_file, early_file], early_file)
   \<and> the (folder_score late_file) = the (folder_score early_file)
   \<and> min (ctime early_file) (mtime early_file) < min (ctime late_file) (mtime late_file)
   \<and> length (path late_file) < length (path early_file)
   \<and> choose_file_to_keep Posix no_listing [long_path_file, short_path_file]
       = Inr ([long_path_file, short_path_file], short_path_file)
   \<and> the (folder_score long_path_file) = the (folder_score short_path_file)
   \<and> min (ctime long_path_file) (mtime long_path_file)
       = min (ctime short_path_file) (mtime short_path_file)
   \<and> length (path short_path_file) < length (path long_path_file)"
proof -
  have known:
    "the (folder_score cache_file) < the (folder_score album_file)"
    "min (ctime cache_file) (mtime cache_file) < min (ctime album_file) (mtime album_file)"
    "length (path cache_file) < length (path album_file)"
    "the (folder_score late_file) = the (folder_score early_file)"
    "min (ctime early_file) (mtime early_file) < min (ctime late_file) (mtime late_file)"
    "length (path late_file) < length (path early_file)"
    "the (folder_score long_path_file) = the (folder_score short_path_file)"
    "min (ctime long_path_file) (mtime long_path_file)
       = min (ctime short_path_file) (mtime short_path_file)"
    "length (path short_path_file) < length (path long_path_file)"
    by (simp_all add: order_fixture_defs)
  let ?score = "\<lambda>f::FileInfo. the (folder_score f)"
  let ?time = "\<lambda>f::FileInfo. min (ctime f) (mtime f)"
  have pick: "choose_file_to_keep Posix no_listing [a, b] = Inr ([a, b], b)"
    if scored: "folder_score a \<noteq> None" "folder_score b \<noteq> None"
      and behind: "\<not> (?score b < ?score a
           \<or> (?score b = ?score a
              \<and> (?time a < ?time b
                 \<or> (?time a = ?time b \<and> length (path a) \<le> length (path b)))))"
    for a b :: FileInfo
  proof -
    have two: "2 \<le> length [a, b]" by simp
    from choose_file_to_keep_lexicographic_minimum[OF two, of Posix no_listing]
    show ?thesis
    proof (elim exE conjE)
      fix files' keeper
      assume c: "choose_file_to_keep Posix no_listing [a, b] = Inr (files', keeper)"
        and same: "(\<forall>f\<in>set [a, b]. folder_score f \<noteq> None) \<longrightarrow> files' = [a, b]"
        and mem: "keeper \<in> set files'"
        and le: "\<forall>f\<in>set files'.
             ?score f < ?score keeper
           \<or> (?score f = ?score keeper
              \<and> (?time keeper < ?time f
                 \<or> (?time keeper = ?time f \<and> length (path keeper) \<le> length (path f))))"
      have fs: "files' = [a, b]" using same scored by simp
      have "keeper = b"
      proof (rule ccontr)
        assume "keeper \<noteq> b"
        with mem fs have k: "keeper = a" by simp
        from le fs have "?score b < ?score keeper
             \<or> (?score b = ?score keeper
                \<and> (?time keeper < ?time b
                   \<or> (?time keeper = ?time b \<and> length (path keeper) \<le> length (path b))))"
          by simp
        with behind show False unfolding k by blast
      qed
      with c fs show ?thesis by simp
    qed
  qed
  have by_score: "choose_file_to_keep Posix no_listing [cache_file, album_file]
      = Inr ([cache_file, album_file], album_file)"
    by (rule pick) (simp_all add: order_fixture_defs)
  have by_time: "choose_file_to_keep Posix no_listing [late_file, early_file]
      = Inr ([late_file, early_file], early_file)"
    by (rule pick) (simp_all add: order_fixture_defs)
  have by_length: "choose_file_to_keep Posix no_listing [long_path_file, short_path_file]
      = Inr ([long_path_file, short_path_file], short_path_file)"
    by (rule pick) (simp_all add: order_fixture_defs)
  show ?thesis
    using known by_score by_time by_length by simp
qed

text \<open>
  C9. When all files of the list have the same folder score, the same \<open>min(ctime, mtime)\<close>
  and the same path length (the scores read after the missing ones are filled in), the keeper
  is the first file of the list: the sort is stable.
\<close>

theorem choose_file_to_keep_full_tie_first:
  assumes "files \<noteq> []"
    and "\<forall>f\<in>set files. \<forall>g\<in>set files.
           folder_score (ensure_score fl iterdir f) = folder_score (ensure_score fl iterdir g)
         \<and> get_earliest_time f = get_earliest_time g
         \<and> length (path f) = length (path g)"
  shows "\<exists>files'. choose_file_to_keep fl iterdir files = Inr (files', hd files')
         \<and> map path files' = map path files
         \<and> (length files = 1 \<or> files' = map (ensure_score fl iterdir) files)"
proof (cases "length files = 1")
  case True
  then obtain f where "files = [f]" by (cases files) auto
  then show ?thesis by (simp add: choose_file_to_keep_def)
next
  case False
  with assms(1) have two: "2 \<le> length files"
    by (cases files) (auto simp: Suc_le_eq)
  let ?fs = "map (ensure_score fl iterdir) files"
  have et: "get_earliest_time (ensure_score fl iterdir f) = get_earliest_time f" for f
    by (simp add: ensure_score_def get_earliest_time_def split: option.splits)
  have "\<forall>x\<in>set ?fs. sort_key_of x = sort_key_of (hd ?fs)"
  proof
    fix x assume "x \<in> set ?fs"
    then obtain f where f: "f \<in> set files" and x: "x = ensure_score fl iterdir f" by auto
    have h: "hd files \<in> set files" using assms(1) by simp
    have hdm: "hd ?fs = ensure_score fl iterdir (hd files)" using assms(1) by (simp add: hd_map)
    show "sort_key_of x = sort_key_of (hd ?fs)"
      using assms(2) f h unfolding x hdm sort_key_of_def et ensure_score_path by metis
  qed
  then have fixed: "sort_key sort_key_of ?fs = ?fs" by (rule sort_key_all_equal)
  obtain keeper rest where
    s: "sort_key sort_key_of ?fs = keeper # rest" and
    c: "choose_file_to_keep fl iterdir files = Inr (?fs, keeper)"
    using choose_file_to_keep_many[OF two] by blast
  have "hd ?fs = keeper" using s fixed by (metis list.sel(1))
  with c have "choose_file_to_keep fl iterdir files = Inr (?fs, hd ?fs)" by simp
  then show ?thesis by (auto simp: ensure_score_path)
qed

theorem choose_file_to_keep_full_tie_first_witness:
  "choose_file_to_keep Posix no_listing [tie_file1, tie_file2]
     = Inr ([tie_file1, tie_file2], tie_file1)
   \<and> choose_file_to_keep Posix no_listing [tie_file2, tie_file1]
     = Inr ([tie_file2, tie_file1], tie_file2)"
proof -
  have ne: "[tie_file1, tie_file2] \<noteq> []" "[tie_file2, tie_file1] \<noteq> []" by simp_all
  have tie: "\<forall>f\<in>set [tie_file1, tie_file2]. \<forall>g\<in>set [tie_file1, tie_file2].
           folder_score (ensure_score Posix no_listing f)
             = folder_score (ensure_score Posix no_listing g)
         \<and> get_earliest_time f = get_earliest_time g
         \<and> length (path f) = length (path g)"
    by (simp add: ensure_score_def get_earliest_time_def fixture_defs)
  have tie': "\<forall>f\<in>set [tie_file2, tie_file1]. \<forall>g\<in>set [tie_file2, tie_file1].
           folder_score (ensure_score Posix no_listing f)
             = folder_score (ensure_score Posix no_listing g)
         \<and> get_earliest_time f = get_earliest_time g
         \<and> length (path f) = length (path g)"
    by (simp add: ensure_score_def get_earliest_time_def fixture_defs)
  have id: "map (ensure_score Posix no_listing) [tie_file1, tie_file2] = [tie_file1, tie_file2]"
    "map (ensure_score Posix no_listing) [tie_file2, tie_file1] = [tie_file2, tie_file1]"
    by (simp_all add: ensure_score_def fixture_defs)
  have l: "length [tie_file1, tie_file2] \<noteq> 1" "length [tie_file2, tie_file1] \<noteq> 1"
    by simp_all
  from choose_file_to_keep_full_tie_first[OF ne(1) tie] l(1)
  have a: "choose_file_to_keep Posix no_listing [tie_file1, tie_file2]
             = Inr ([tie_file1, tie_file2], hd [tie_file1, tie_file2])"
    unfolding id(1) by blast
  from choose_file_to_keep_full_tie_first[OF ne(2) tie'] l(2)
  have b: "choose_file_to_keep Posix no_listing [tie_file2, tie_file1]
             = Inr ([tie_file2, tie_file1], hd [tie_file2, tie_file1])"
    unfolding id(2) by blast
  show ?thesis using a b by simp
qed

section \<open>ActionDispatcher: the safety gates\<close>

lemma dispose_not_applied:
  "\<not> apply_flag a \<Longrightarrow> dispose fl a f st = (None, ''dry-run'', None, st)"
  by (simp add: dispose_def)

lemma dispose_unconfirmed:
  "apply_flag a \<Longrightarrow> mode a = ''delete'' \<Longrightarrow> \<not> confirm a
   \<Longrightarrow> dispose fl a f st = (None, ''dry-run'', Some ''Confirm flag not set'', st)"
  by (simp add: dispose_def)

text \<open>
  A disposition is inert when it never touches the state and always gives the same action
  type and error. Under an inert disposition a run changes nothing but the list of actions.
\<close>

lemma process_file_inert:
  assumes "\<And>f s. dispose fl a f s = (None, act, err, s)"
    and "process_file fl a h keeper f st = (exc, st')"
  shows "fs st' = fs st \<and> quarantine_manager st' = quarantine_manager st
       \<and> (\<exists>new. actions st' = actions st @ new \<and> (\<forall>r\<in>set new. action r = act \<and> error r = err))"
proof (cases "path f = path keeper")
  case True
  with assms(2) show ?thesis by (simp add: process_file_def)
next
  case False
  show ?thesis
  proof (cases "build_reason keeper f")
    case (Inl e)
    with False assms(2) show ?thesis by (simp add: process_file_def)
  next
    case (Inr why)
    with False assms have "st' = st\<lparr>actions := actions st @ [make_action h keeper f why act err]\<rparr>"
      by (simp add: process_file_def)
    then show ?thesis by (simp add: make_action_def)
  qed
qed

lemma process_files_inert:
  assumes "\<And>f s. dispose fl a f s = (None, act, err, s)"
    and "process_files fl a h keeper files st = (exc, st')"
  shows "fs st' = fs st \<and> quarantine_manager st' = quarantine_manager st
       \<and> (\<exists>new. actions st' = actions st @ new \<and> (\<forall>r\<in>set new. action r = act \<and> error r = err))"
  using assms(2)
proof (induction files arbitrary: st)
  case Nil
  then show ?case by simp
next
  case (Cons f rest)
  obtain e1 st1 where one: "process_file fl a h keeper f st = (e1, st1)"
    by (cases "process_file fl a h keeper f st") auto
  from process_file_inert[OF assms(1) one] obtain new1 where
    f1: "fs st1 = fs st" "quarantine_manager st1 = quarantine_manager st"
    "actions st1 = actions st @ new1" "\<forall>r\<in>set new1. action r = act \<and> error r = err"
    by blast
  show ?case
  proof (cases e1)
    case (Some e)
    with Cons.prems one have "st' = st1" by simp
    with f1 show ?thesis by blast
  next
    case None
    with Cons.prems one have "process_files fl a h keeper rest st1 = (exc, st')" by simp
    from Cons.IH[OF this] obtain new2 where
      f2: "fs st' = fs st1" "quarantine_manager st' = quarantine_manager st1"
      "actions st' = actions st1 @ new2" "\<forall>r\<in>set new2. action r = act \<and> error r = err"
      by blast
    have "actions st' = actions st @ (new1 @ new2)" using f1 f2 by simp
    moreover have "\<forall>r\<in>set (new1 @ new2). action r = act \<and> error r = err"
      using f1 f2 by auto
    ultimately show ?thesis using f1 f2 by metis
  qed
qed

lemma process_duplicates_inert:
  assumes "\<And>f s. dispose fl a f s = (None, act, err, s)"
    and "process_duplicates fl iterdir a groups st = (exc, st')"
  shows "fs st' = fs st \<and> quarantine_manager st' = quarantine_manager st
       \<and> (\<exists>new. actions st' = actions st @ new \<and> (\<forall>r\<in>set new. action r = act \<and> error r = err))"
  using assms(2)
proof (induction groups arbitrary: st)
  case Nil
  then show ?case by simp
next
  case (Cons g groups)
  obtain h files where g: "g = (h, files)" by (cases g)
  show ?case
  proof (cases "choose_file_to_keep fl (iterdir (fs st)) files")
    case (Inl e)
    with Cons.prems g have "st' = st" by simp
    then show ?thesis by simp
  next
    case (Inr r)
    obtain files' keeper where r: "r = (files', keeper)" by (cases r)
    obtain e1 st1 where one: "process_files fl a h keeper files' st = (e1, st1)"
      by (cases "process_files fl a h keeper files' st") auto
    from process_files_inert[OF assms(1) one] obtain new1 where
      f1: "fs st1 = fs st" "quarantine_manager st1 = quarantine_manager st"
      "actions st1 = actions st @ new1" "\<forall>r\<in>set new1. action r = act \<and> error r = err"
      by blast
    show ?thesis
    proof (cases e1)
      case (Some e)
      with Cons.prems g Inr r one have "st' = st1" by simp
      with f1 show ?thesis by blast
    next
      case None
      with Cons.prems g Inr r one
      have "process_duplicates fl iterdir a groups st1 = (exc, st')" by simp
      from Cons.IH[OF this] obtain new2 where
        f2: "fs st' = fs st1" "quarantine_manager st' = quarantine_manager st1"
        "actions st' = actions st1 @ new2" "\<forall>r\<in>set new2. action r = act \<and> error r = err"
        by blast
      have "actions st' = actions st @ (new1 @ new2)" using f1 f2 by simp
      moreover have "\<forall>r\<in>set (new1 @ new2). action r = act \<and> error r = err"
        using f1 f2 by auto
      ultimately show ?thesis using f1 f2 by metis
    qed
  qed
qed

text \<open>With scores defined, an inert run records exactly the files whose path is not the keeper's.\<close>

lemma process_files_inert_complete:
  assumes "\<And>f s. dispose fl a f s = (None, act, err, s)"
    and "folder_score keeper \<noteq> None"
    and "\<forall>f\<in>set files. folder_score f \<noteq> None"
  shows "\<exists>new. process_files fl a h keeper files st = (None, st\<lparr>actions := actions st @ new\<rparr>)
           \<and> map (\<lambda>r. (a_hash r, removed_path r)) new
               = map (\<lambda>f. (h, path f)) (filter (\<lambda>f. path f \<noteq> path keeper) files)"
  using assms(3)
proof (induction files arbitrary: st)
  case Nil
  show ?case by (rule exI[of _ "[]"]) simp
next
  case (Cons f rest)
  from Cons.prems have rest: "\<forall>f\<in>set rest. folder_score f \<noteq> None" by simp
  show ?case
  proof (cases "path f = path keeper")
    case True
    then have "process_files fl a h keeper (f # rest) st = process_files fl a h keeper rest st"
      by (simp add: process_file_def)
    with Cons.IH[OF rest, of st] True show ?thesis by simp
  next
    case False
    from Cons.prems assms(2) obtain why where why: "build_reason keeper f = Inr why"
      by (auto simp: build_reason_def Let_def)
    let ?r = "make_action h keeper f why act err"
    let ?st1 = "st\<lparr>actions := actions st @ [?r]\<rparr>"
    have one: "process_file fl a h keeper f st = (None, ?st1)"
      using False why assms(1) by (simp add: process_file_def)
    from Cons.IH[OF rest, of ?st1] obtain new where
      n: "process_files fl a h keeper rest ?st1 = (None, ?st1\<lparr>actions := actions ?st1 @ new\<rparr>)"
      "map (\<lambda>r. (a_hash r, removed_path r)) new
         = map (\<lambda>f. (h, path f)) (filter (\<lambda>f. path f \<noteq> path keeper) rest)"
      by blast
    have "process_files fl a h keeper (f # rest) st
            = (None, st\<lparr>actions := actions st @ (?r # new)\<rparr>)"
      using one n(1) by simp
    moreover have "map (\<lambda>r. (a_hash r, removed_path r)) (?r # new)
         = map (\<lambda>f. (h, path f)) (filter (\<lambda>f. path f \<noteq> path keeper) (f # rest))"
      using False n(2) by (simp add: make_action_def)
    ultimately show ?thesis by blast
  qed
qed

lemma choose_file_to_keep_nonempty:
  assumes "files \<noteq> []"
  shows "\<exists>files' keeper. choose_file_to_keep fl iterdir files = Inr (files', keeper)
         \<and> ((files' = [keeper])
             \<or> (folder_score keeper \<noteq> None \<and> (\<forall>f\<in>set files'. folder_score f \<noteq> None)))"
proof (cases "length files = 1")
  case True
  then obtain f where "files = [f]" by (cases files) auto
  then show ?thesis by (simp add: choose_file_to_keep_def)
next
  case False
  with assms have two: "2 \<le> length files" by (cases files) (auto simp: Suc_le_eq)
  let ?fs = "map (ensure_score fl iterdir) files"
  obtain keeper rest where
    s: "sort_key sort_key_of ?fs = keeper # rest" and
    c: "choose_file_to_keep fl iterdir files = Inr (?fs, keeper)"
    using choose_file_to_keep_many[OF two] by blast
  have "keeper \<in> set ?fs" using sort_key_hd_min[OF s] by blast
  moreover have "\<forall>f\<in>set ?fs. folder_score f \<noteq> None"
    by (auto simp: ensure_score_def split: option.splits)
  ultimately show ?thesis using c by blast
qed

lemma process_group_inert_complete:
  assumes "\<And>f s. dispose fl a f s = (None, act, err, s)"
    and "choose_file_to_keep fl ls files = Inr (files', keeper)"
    and "files \<noteq> []"
  shows "\<exists>new. process_files fl a h keeper files' st = (None, st\<lparr>actions := actions st @ new\<rparr>)
           \<and> map (\<lambda>r. (a_hash r, removed_path r)) new
               = map (\<lambda>f. (h, path f)) (filter (\<lambda>f. path f \<noteq> path keeper) files')"
proof -
  from choose_file_to_keep_nonempty[OF assms(3), of fl ls] assms(2)
  consider "files' = [keeper]"
    | "folder_score keeper \<noteq> None" "\<forall>f\<in>set files'. folder_score f \<noteq> None"
    by auto
  then show ?thesis
  proof cases
    case 1
    then show ?thesis by (intro exI[of _ "[]"]) (simp add: process_file_def)
  next
    case 2
    then show ?thesis by (rule process_files_inert_complete[OF assms(1)])
  qed
qed

lemma process_duplicates_inert_complete:
  assumes "\<And>f s. dispose fl a f s = (None, act, err, s)"
    and "\<forall>g\<in>set groups. snd g \<noteq> []"
  shows "\<exists>new. process_duplicates fl iterdir a groups st = (None, st\<lparr>actions := actions st @ new\<rparr>)
           \<and> map (\<lambda>r. (a_hash r, removed_path r)) new
               = concat (map (files_to_remove fl (iterdir (fs st))) groups)"
  using assms(2)
proof (induction groups arbitrary: st)
  case Nil
  show ?case by (rule exI[of _ "[]"]) simp
next
  case (Cons g groups)
  obtain h files where g: "g = (h, files)" by (cases g)
  with Cons.prems have ne: "files \<noteq> []" and rest: "\<forall>g\<in>set groups. snd g \<noteq> []" by auto
  obtain files' keeper where
    c: "choose_file_to_keep fl (iterdir (fs st)) files = Inr (files', keeper)"
    using choose_file_to_keep_nonempty[OF ne] by blast
  from process_group_inert_complete[OF assms(1) c ne, of h st] obtain new1 where
    n1: "process_files fl a h keeper files' st = (None, st\<lparr>actions := actions st @ new1\<rparr>)"
    "map (\<lambda>r. (a_hash r, removed_path r)) new1
       = map (\<lambda>f. (h, path f)) (filter (\<lambda>f. path f \<noteq> path keeper) files')"
    by blast
  let ?st1 = "st\<lparr>actions := actions st @ new1\<rparr>"
  from Cons.IH[OF rest, of ?st1] obtain new2 where
    n2: "process_duplicates fl iterdir a groups ?st1
           = (None, ?st1\<lparr>actions := actions ?st1 @ new2\<rparr>)"
    "map (\<lambda>r. (a_hash r, removed_path r)) new2
       = concat (map (files_to_remove fl (iterdir (fs ?st1))) groups)"
    by blast
  have "process_duplicates fl iterdir a (g # groups) st
          = (None, st\<lparr>actions := actions st @ (new1 @ new2)\<rparr>)"
    using g c n1(1) n2(1) by simp
  moreover have "map (\<lambda>r. (a_hash r, removed_path r)) (new1 @ new2)
       = concat (map (files_to_remove fl (iterdir (fs st))) (g # groups))"
    using g c n1(2) n2(2) by (simp add: files_to_remove_def)
  ultimately show ?case by blast
qed

lemma process_duplicates_inert_run:
  assumes "\<And>f s. dispose fl a f s = (None, act, err, s)"
  shows "\<exists>exc st' new.
           process_duplicates fl iterdir a groups st = (exc, st')
         \<and> fs st' = fs st
         \<and> quarantine_manager st' = quarantine_manager st
         \<and> actions st' = actions st @ new
         \<and> (\<forall>r\<in>set new. action r = act \<and> error r = err)
         \<and> ((\<forall>g\<in>set groups. snd g \<noteq> [])
              \<longrightarrow> exc = None
                \<and> map (\<lambda>r. (a_hash r, removed_path r)) new
                    = concat (map (files_to_remove fl (iterdir (fs st))) groups))"
proof -
  obtain exc st' where run: "process_duplicates fl iterdir a groups st = (exc, st')"
    by (cases "process_duplicates fl iterdir a groups st") auto
  from process_duplicates_inert[OF assms run] obtain new where
    inert: "fs st' = fs st" "quarantine_manager st' = quarantine_manager st"
    "actions st' = actions st @ new" "\<forall>r\<in>set new. action r = act \<and> error r = err"
    by blast
  have "exc = None \<and> map (\<lambda>r. (a_hash r, removed_path r)) new
          = concat (map (files_to_remove fl (iterdir (fs st))) groups)"
    if "\<forall>g\<in>set groups. snd g \<noteq> []"
  proof -
    from process_duplicates_inert_complete[OF assms that, of iterdir st] obtain new' where
      c: "process_duplicates fl iterdir a groups st = (None, st\<lparr>actions := actions st @ new'\<rparr>)"
      "map (\<lambda>r. (a_hash r, removed_path r)) new'
         = concat (map (files_to_remove fl (iterdir (fs st))) groups)"
      by blast
    from c(1) run have "exc = None" "st' = st\<lparr>actions := actions st @ new'\<rparr>" by simp_all
    then have "actions st' = actions st @ new'" by simp
    with inert(3) have "new = new'" by simp
    with c(2) \<open>exc = None\<close> show ?thesis by simp
  qed
  with run inert show ?thesis by blast
qed

lemmas demo_defs =
  demo_world_def demo_groups_def demo_cleaner_def dry_run_args_def unconfirmed_args_def

lemma demo_files_to_remove:
  "concat (map (files_to_remove Posix ls) demo_groups) = [(''abc123'', ''/temp/cache/file.txt'')]"
  by (simp add: files_to_remove_def choose_file_to_keep_def ensure_score_def sort_key_of_def
      get_earliest_time_def fixture_defs demo_defs)

text \<open>
  C2. When the apply flag is false then, whatever the mode, a run of the dispatcher over any
  duplicate groups leaves the world as it was (no file removed or moved, no directory made,
  no mutating call issued) and the move log untouched, and every action record it adds has
  the disposition \<open>dry-run\<close> and no error. When no group is empty the run ends normally and
  the records added are, in order, those of the files whose path is not their keeper's.
\<close>

theorem dry_run_never_mutates:
  assumes "\<not> apply_flag a"
  shows "\<exists>exc st' new.
           process_duplicates fl iterdir a groups st = (exc, st')
         \<and> fs st' = fs st
         \<and> quarantine_manager st' = quarantine_manager st
         \<and> actions st' = actions st @ new
         \<and> (\<forall>r\<in>set new. action r = ''dry-run'' \<and> error r = None)
         \<and> ((\<forall>g\<in>set groups. snd g \<noteq> [])
              \<longrightarrow> exc = None
                \<and> map (\<lambda>r. (a_hash r, removed_path r)) new
                    = concat (map (files_to_remove fl (iterdir (fs st))) groups))"
  by (rule process_duplicates_inert_run) (simp add: dispose_not_applied[OF assms])

theorem dry_run_never_mutates_witness:
  "\<not> apply_flag dry_run_args
   \<and> (\<exists>exc st' r.
         process_duplicates Posix (\<lambda>w. no_listing) dry_run_args demo_groups demo_cleaner = (exc, st')
       \<and> exc = None
       \<and> fs st' = demo_world
       \<and> actions st' = [r]
       \<and> removed_path r = ''/temp/cache/file.txt''
       \<and> action r = ''dry-run'')"
proof -
  have h: "\<not> apply_flag dry_run_args" by (simp add: dry_run_args_def)
  have ne: "\<forall>g\<in>set demo_groups. snd g \<noteq> []" by (simp add: demo_groups_def)
  from dry_run_never_mutates[OF h, of Posix "\<lambda>w. no_listing" demo_groups demo_cleaner] ne
  obtain exc st' new where
    run: "process_duplicates Posix (\<lambda>w. no_listing) dry_run_args demo_groups demo_cleaner = (exc, st')"
    and frame: "fs st' = fs demo_cleaner" "actions st' = actions demo_cleaner @ new"
    and dry: "\<forall>r\<in>set new. action r = ''dry-run'' \<and> error r = None"
    and ok: "exc = None"
    and which: "map (\<lambda>r. (a_hash r, removed_path r)) new
                  = concat (map (files_to_remove Posix no_listing) demo_groups)"
    by blast
  from which obtain r where new: "new = [r]" and r: "removed_path r = ''/temp/cache/file.txt''"
    unfolding demo_files_to_remove by auto
  from dry new have "action r = ''dry-run''" by simp
  with h run frame ok new r show ?thesis by (simp add: demo_cleaner_def)
qed

text \<open>
  C3. In delete mode with the apply flag set and the confirm flag not set, a run of the
  dispatcher leaves the world as it was (no mutating call is issued), and every action record
  it adds carries the error \<open>Confirm flag not set\<close> (with the disposition \<open>dry-run\<close>). When no
  group is empty the run ends normally and adds one such record, in order, for every file
  whose path is not its keeper's.
\<close>

theorem delete_without_confirm_is_refused:
  assumes "mode a = ''delete''" and "apply_flag a" and "\<not> confirm a"
  shows "\<exists>exc st' new.
           process_duplicates fl iterdir a groups st = (exc, st')
         \<and> fs st' = fs st
         \<and> quarantine_manager st' = quarantine_manager st
         \<and> actions st' = actions st @ new
         \<and> (\<forall>r\<in>set new. action r = ''dry-run'' \<and> error r = Some ''Confirm flag not set'')
         \<and> ((\<forall>g\<in>set groups. snd g \<noteq> [])
              \<longrightarrow> exc = None
                \<and> map (\<lambda>r. (a_hash r, removed_path r)) new
                    = concat (map (files_to_remove fl (iterdir (fs st))) groups))"
  by (rule process_duplicates_inert_run) (simp add: dispose_unconfirmed[OF assms(2,1,3)])

theorem delete_without_confirm_is_refused_witness:
  "mode unconfirmed_args = ''delete'' \<and> apply_flag unconfirmed_args \<and> \<not> confirm unconfirmed_args
   \<and> (\<exists>exc st' r.
         process_duplicates Posix (\<lambda>w. no_listing) unconfirmed_args demo_groups demo_cleaner
           = (exc, st')
       \<and> exc = None
       \<and> fs st' = demo_world
       \<and> actions st' = [r]
       \<and> removed_path r = ''/temp/cache/file.txt''
       \<and> error r = Some ''Confirm flag not set'')"
proof -
  have h: "mode unconfirmed_args = ''delete''" "apply_flag unconfirmed_args"
    "\<not> confirm unconfirmed_args"
    by (simp_all add: unconfirmed_args_def)
  have ne: "\<forall>g\<in>set demo_groups. snd g \<noteq> []" by (simp add: demo_groups_def)
  from delete_without_confirm_is_refused[OF h, of Posix "\<lambda>w. no_listing" demo_groups demo_cleaner] ne
  obtain exc st' new where
    run: "process_duplicates Posix (\<lambda>w. no_listing) unconfirmed_args demo_groups demo_cleaner
            = (exc, st')"
    and frame: "fs st' = fs demo_cleaner" "actions st' = actions demo_cleaner @ new"
    and refused: "\<forall>r\<in>set new. action r = ''dry-run'' \<and> error r = Some ''Confirm flag not set''"
    and ok: "exc = None"
    and which: "map (\<lambda>r. (a_hash r, removed_path r)) new
                  = concat (map (files_to_remove Posix no_listing) demo_groups)"
    by blast
  from which obtain r where new: "new = [r]" and r: "removed_path r = ''/temp/cache/file.txt''"
    unfolding demo_files_to_remove by auto
  from refused new have "error r = Some ''Confirm flag not set''" by simp
  with h run frame ok new r show ?thesis by (simp add: demo_cleaner_def)
qed

section \<open>QuarantineStore: the move log\<close>

lemma os_mkdir_contents: "os_mkdir fl w p = (e, w1) \<Longrightarrow> contents w1 = contents w"
  by (auto simp: os_mkdir_def Let_def split: if_splits)

lemma mkdir_exist_ok_contents:
  "mkdir_exist_ok fl w p = (e, w1) \<Longrightarrow> contents w1 = contents w"
  by (auto simp: mkdir_exist_ok_def dest: os_mkdir_contents
        split: prod.splits option.splits if_splits)

lemma path_mkdir_contents: "path_mkdir fl w p = (e, w1) \<Longrightarrow> contents w1 = contents w"
proof (induction fl w p arbitrary: e w1 rule: path_mkdir.induct)
  case (1 fl w p)
  obtain r w0 where m: "os_mkdir fl w p = (r, w0)"
    by (cases "os_mkdir fl w p") auto
  have c0: "contents w0 = contents w" using os_mkdir_contents[OF m] .
  show ?case
  proof (cases "r = Some ENOENT \<and> \<not> path_eq fl (parent p) p")
    case True
    obtain r2 w2 where up: "path_mkdir fl w0 (parent p) = (r2, w2)"
      by (cases "path_mkdir fl w0 (parent p)") auto
    have c2: "contents w2 = contents w0"
      using "1.IH"[OF m[symmetric] _ _ _ up] True by simp
    show ?thesis
    proof (cases r2)
      case None
      with "1.prems" m True up have "mkdir_exist_ok fl w2 p = (e, w1)"
        by (simp add: path_mkdir.simps[of fl w p])
      from mkdir_exist_ok_contents[OF this] c2 c0 show ?thesis by simp
    next
      case (Some e2)
      with "1.prems" m True up have "w1 = w2"
        by (simp add: path_mkdir.simps[of fl w p])
      with c2 c0 show ?thesis by simp
    qed
  next
    case False
    with "1.prems" m have "w1 = w0"
      by (auto simp: path_mkdir.simps[of fl w p] split: option.splits if_splits)
    with c0 show ?thesis by simp
  qed
qed

lemma mkdir_parents_contents:
  "mkdir_parents fl w d = (e, w1) \<Longrightarrow> contents w1 = contents w"
  using path_mkdir_contents[of fl "w\<lparr>calls := calls w @ [Mkdir (path_str fl d)]\<rparr>" d e w1]
  by (simp add: mkdir_parents_def)

text \<open>
  A move that fails leaves the source as it was; the copy made on the way may stay behind at
  the destination. A move that succeeds puts the bytes at the real destination, and takes
  them from the source unless the two are the same path.
\<close>

lemma shutil_move_failure:
  assumes "shutil_move fl w src dst = (Some err, w2)"
  shows "contents w2 src = contents w src \<and> dirs w2 = dirs w"
  using assms
  by (auto simp: shutil_move_def Let_def os_rename_def copy2_def os_unlink_def
        split: option.splits if_splits prod.splits)

lemma shutil_move_success:
  assumes "shutil_move fl w src dst = (None, w2)"
  shows "\<exists>data. contents w src = Some data
           \<and> contents w2 (real_destination fl w src dst) = Some data
           \<and> (real_destination fl w src dst \<noteq> src \<longrightarrow> contents w2 src = None)
           \<and> dirs w2 = dirs w"
  using assms
  by (auto simp: shutil_move_def Let_def os_rename_def copy2_def os_unlink_def
        split: option.splits if_splits prod.splits)

lemma move_to_quarantine_cases:
  obtains
    (mkdir_failed) e w1 where
      "mkdir_parents fl w (parent (get_quarantine_path fl qm filepath)) = (Some e, w1)"
      "move_to_quarantine fl qm w filepath = (False, qm, w1)"
  | (move_failed) w1 e w2 where
      "mkdir_parents fl w (parent (get_quarantine_path fl qm filepath)) = (None, w1)"
      "shutil_move fl w1 (path_str fl (Path fl filepath))
         (path_str fl (get_quarantine_path fl qm filepath)) = (Some e, w2)"
      "move_to_quarantine fl qm w filepath = (False, qm, w2)"
  | (moved) w1 w2 where
      "mkdir_parents fl w (parent (get_quarantine_path fl qm filepath)) = (None, w1)"
      "shutil_move fl w1 (path_str fl (Path fl filepath))
         (path_str fl (get_quarantine_path fl qm filepath)) = (None, w2)"
      "move_to_quarantine fl qm w filepath
         = (True, qm\<lparr>moves := moves qm @
              [(filepath, path_str fl (get_quarantine_path fl qm filepath))]\<rparr>, w2)"
proof -
  let ?dest = "get_quarantine_path fl qm filepath"
  obtain e1 w1 where m: "mkdir_parents fl w (parent ?dest) = (e1, w1)"
    by (cases "mkdir_parents fl w (parent ?dest)") auto
  obtain e2 w2 where s: "shutil_move fl w1 (path_str fl (Path fl filepath)) (path_str fl ?dest) = (e2, w2)"
    by (cases "shutil_move fl w1 (path_str fl (Path fl filepath)) (path_str fl ?dest)") auto
  show thesis
  proof (cases e1)
    case (Some e)
    with m show thesis by (intro mkdir_failed[of e w1]) (simp_all add: move_to_quarantine_def)
  next
    case None
    note n1 = this
    show thesis
    proof (cases e2)
      case (Some e)
      with m s n1 show thesis
        by (intro move_failed[of w1 e w2]) (simp_all add: move_to_quarantine_def)
    next
      case None
      with m s n1 show thesis
        by (intro moved[of w1 w2]) (simp_all add: move_to_quarantine_def)
    qed
  qed
qed

text \<open>
  What \<open>move_to_quarantine\<close> does in general. The pair is logged exactly when it answers
  \<open>True\<close>. When it answers \<open>False\<close> the file is at its original path as before. When it
  answers \<open>True\<close> the bytes of the file are at the real destination, and they are gone from
  the original path if the real destination is another path.
\<close>

lemma move_to_quarantine_effect:
  assumes "move_to_quarantine fl qm w filepath = (ok, qm', w')"
  defines "src \<equiv> path_str fl (Path fl filepath)"
    and "dst \<equiv> path_str fl (get_quarantine_path fl qm filepath)"
  shows "quarantine_dir qm' = quarantine_dir qm"
    and "ok \<longleftrightarrow> moves qm' = moves qm @ [(filepath, dst)]"
    and "\<not> ok \<Longrightarrow> moves qm' = moves qm \<and> contents w' src = contents w src"
    and "ok \<Longrightarrow> \<exists>data. contents w src = Some data
            \<and> contents w' (real_destination fl w' src dst) = Some data
            \<and> (real_destination fl w' src dst \<noteq> src \<longrightarrow> contents w' src = None)"
proof -
  have "quarantine_dir qm' = quarantine_dir qm
      \<and> (ok \<longleftrightarrow> moves qm' = moves qm @ [(filepath, dst)])
      \<and> (\<not> ok \<longrightarrow> moves qm' = moves qm \<and> contents w' src = contents w src)
      \<and> (ok \<longrightarrow> (\<exists>data. contents w src = Some data
            \<and> contents w' (real_destination fl w' src dst) = Some data
            \<and> (real_destination fl w' src dst \<noteq> src \<longrightarrow> contents w' src = None)))"
  proof (cases rule: move_to_quarantine_cases[of fl w qm filepath])
    case (mkdir_failed e w1)
    with assms(1) mkdir_parents_contents[OF mkdir_failed(1)] show ?thesis by auto
  next
    case (move_failed w1 e w2)
    with assms(1) mkdir_parents_contents[OF move_failed(1)]
      shutil_move_failure[OF move_failed(2)]
    show ?thesis by (auto simp: src_def)
  next
    case (moved w1 w2)
    from shutil_move_success[OF moved(2)] obtain data where
      d: "contents w1 src = Some data"
      "contents w2 (real_destination fl w1 src dst) = Some data"
      "real_destination fl w1 src dst \<noteq> src \<longrightarrow> contents w2 src = None"
      "dirs w2 = dirs w1"
      unfolding src_def dst_def by blast
    have c: "contents w1 = contents w"
      using mkdir_parents_contents[OF moved(1)] .
    have same: "real_destination fl w2 src dst = real_destination fl w1 src dst"
      using d(4) by (simp add: real_destination_def)
    from moved(3) assms(1) have r: "ok" "w' = w2"
      "qm' = qm\<lparr>moves := moves qm @ [(filepath, dst)]\<rparr>"
      by (simp_all add: dst_def)
    show ?thesis using d(1,2,3) c same r by auto
  qed
  then show "quarantine_dir qm' = quarantine_dir qm"
    and "ok \<longleftrightarrow> moves qm' = moves qm @ [(filepath, dst)]"
    and "\<not> ok \<Longrightarrow> moves qm' = moves qm \<and> contents w' src = contents w src"
    and "ok \<Longrightarrow> \<exists>data. contents w src = Some data
            \<and> contents w' (real_destination fl w' src dst) = Some data
            \<and> (real_destination fl w' src dst \<noteq> src \<longrightarrow> contents w' src = None)"
    by blast+
qed

text \<open>
  On Windows the second copy under \<open>D:\data\<close> goes to the quarantine directory. When its
  entry is locked the move fails after the copy was made: the file is where it was, and a
  copy of it lies in the quarantine directory, which the log does not mention. When the
  file is gone the move fails and nothing is changed.
\<close>

lemma demo_quarantine_path:
  "path_str Windows (get_quarantine_path Windows demo_manager (path extra_copy)) = quarantined_copy"
  by code_simp

lemma demo_move_relocates:
  "fst (move_to_quarantine Windows demo_manager win_world (path extra_copy))"
  "moves (fst (snd (move_to_quarantine Windows demo_manager win_world (path extra_copy))))
     = [(path extra_copy, quarantined_copy)]"
  "contents (snd (snd (move_to_quarantine Windows demo_manager win_world (path extra_copy))))
     quarantined_copy = Some [1, 2, 3]"
  "contents (snd (snd (move_to_quarantine Windows demo_manager win_world (path extra_copy))))
     (path extra_copy) = None"
  by code_simp+

lemma demo_move_refused:
  "\<not> fst (move_to_quarantine Windows demo_manager locked_world (path extra_copy))"
  "moves (fst (snd (move_to_quarantine Windows demo_manager locked_world (path extra_copy))))
     = []"
  "contents (snd (snd (move_to_quarantine Windows demo_manager locked_world (path extra_copy))))
     (path extra_copy) = Some [1, 2, 3]"
  "contents (snd (snd (move_to_quarantine Windows demo_manager locked_world (path extra_copy))))
     quarantined_copy = Some [1, 2, 3]"
  "\<not> fst (move_to_quarantine Windows demo_manager gone_world (path extra_copy))"
  "contents (snd (snd (move_to_quarantine Windows demo_manager gone_world (path extra_copy))))
     quarantined_copy = None"
  by code_simp+

lemma posix_paths:
  "get_quarantine_path Posix posix_manager (path posix_extra) = Path Posix (path posix_extra)"
  "path_str Posix (Path Posix (path posix_extra)) = path posix_extra"
  "path_str Posix (parent (Path Posix (path posix_extra))) = ''/home/user/photos/copy''"
  "quarantine_manager (init_cleaner Posix posix_args posix_world) = Some posix_manager"
  "moves posix_manager = []"
  by code_simp+

lemma posix_mkdir:
  "mkdir_parents Posix posix_world (parent (Path Posix (path posix_extra)))
     = (None, posix_world\<lparr>calls := [Mkdir ''/home/user/photos/copy'']\<rparr>)"
  by (simp add: mkdir_parents_def path_mkdir.simps os_mkdir_def path_exists_def Let_def
        posix_paths(3) posix_world_def)

lemma posix_move:
  "shutil_move Posix (posix_world\<lparr>calls := [Mkdir ''/home/user/photos/copy'']\<rparr>)
       (path posix_extra) (path posix_extra)
     = (None, posix_world\<lparr>calls := [Mkdir ''/home/user/photos/copy'',
                                      Move (path posix_extra) (path posix_extra)]\<rparr>)"
  by (simp add: shutil_move_def real_destination_def os_rename_def Let_def
        posix_world_def posix_extra_def posix_kept_def)

lemma posix_quarantine:
  "move_to_quarantine Posix posix_manager posix_world (path posix_extra)
     = (True, posix_manager\<lparr>moves := [(path posix_extra, path posix_extra)]\<rparr>,
        posix_world\<lparr>calls := [Mkdir ''/home/user/photos/copy'',
                               Move (path posix_extra) (path posix_extra)]\<rparr>)"
  by (simp add: move_to_quarantine_def posix_paths posix_mkdir posix_move)

lemma posix_reason:
  "build_reason posix_kept posix_extra = Inr ''better folder score (50 vs 10); shorter path''"
  by code_simp

lemma posix_keeper:
  "choose_file_to_keep Posix no_listing [posix_kept, posix_extra]
     = Inr ([posix_kept, posix_extra], posix_kept)"
  by (simp add: choose_file_to_keep_def ensure_score_def sort_key_of_def
        get_earliest_time_def posix_kept_def posix_extra_def)

text \<open>
  C7 does not hold of the code. The pair is appended to the move log, and the record gets
  the disposition \<open>move\<close>, whenever \<open>shutil.move\<close> raises no exception, and that is not
  always a relocation. With the POSIX flavour of \<open>pathlib\<close> the destination that
  \<open>get_quarantine_path\<close> computes for an absolute path is that path itself (the defect of
  C10), and renaming a file onto itself succeeds and does nothing. For the second copy
  \<open>/home/user/photos/copy/a.txt\<close> of a scan of \<open>/home/user/photos\<close>, in quarantine mode with
  the apply flag set, \<open>move_to_quarantine\<close> answers \<open>True\<close> and logs the pair (path, path),
  and the dispatcher records the action \<open>move\<close> with no error, while the file system is as
  it was but for the trace of the two calls: the file is at its original location and
  nowhere else. The repository's \<open>test_move_to_quarantine\<close> expects the original to be gone
  after a move that answered \<open>True\<close>.
\<close>

theorem quarantine_logs_file_left_in_place:
  "apply_flag posix_args \<and> mode posix_args = ''quarantine''
   \<and> init_cleaner Posix posix_args posix_world
       = \<lparr>fs = posix_world, quarantine_manager = Some posix_manager, actions = []\<rparr>
   \<and> moves posix_manager = []
   \<and> contents posix_world (path posix_extra) = Some [1, 2, 3]
   \<and> path_str Posix (get_quarantine_path Posix posix_manager (path posix_extra))
       = path posix_extra
   \<and> move_to_quarantine Posix posix_manager posix_world (path posix_extra)
       = (True, posix_manager\<lparr>moves := [(path posix_extra, path posix_extra)]\<rparr>,
          posix_world\<lparr>calls := [Mkdir ''/home/user/photos/copy'',
                                 Move (path posix_extra) (path posix_extra)]\<rparr>)
   \<and> process_duplicates Posix (\<lambda>w. no_listing) posix_args
         [(''abc123'', [posix_kept, posix_extra])] (init_cleaner Posix posix_args posix_world)
       = (None,
          \<lparr>fs = posix_world\<lparr>calls := [Mkdir ''/home/user/photos/copy'',
                                        Move (path posix_extra) (path posix_extra)]\<rparr>,
           quarantine_manager
             = Some (posix_manager\<lparr>moves := [(path posix_extra, path posix_extra)]\<rparr>),
           actions = [make_action ''abc123'' posix_kept posix_extra
                        ''better folder score (50 vs 10); shorter path'' ''move'' None]\<rparr>)
   \<and> action (make_action ''abc123'' posix_kept posix_extra
                ''better folder score (50 vs 10); shorter path'' ''move'' None) = ''move''
   \<and> error (make_action ''abc123'' posix_kept posix_extra
               ''better folder score (50 vs 10); shorter path'' ''move'' None) = None"
proof -
  have args: "apply_flag posix_args" "mode posix_args = ''quarantine''"
    by (simp_all add: posix_args_def)
  have st: "init_cleaner Posix posix_args posix_world
      = \<lparr>fs = posix_world, quarantine_manager = Some posix_manager, actions = []\<rparr>"
    using posix_paths(4) by (simp add: init_cleaner_def)
  have there: "contents posix_world (path posix_extra) = Some [1, 2, 3]"
    by (simp add: posix_world_def)
  have differ: "path posix_extra \<noteq> path posix_kept"
    by (simp add: posix_extra_def posix_kept_def)
  have dest: "path_str Posix (get_quarantine_path Posix posix_manager (path posix_extra))
      = path posix_extra"
    by (simp add: posix_paths(1,2))
  have run: "process_duplicates Posix (\<lambda>w. no_listing) posix_args
         [(''abc123'', [posix_kept, posix_extra])]
         \<lparr>fs = posix_world, quarantine_manager = Some posix_manager, actions = []\<rparr>
       = (None,
          \<lparr>fs = posix_world\<lparr>calls := [Mkdir ''/home/user/photos/copy'',
                                        Move (path posix_extra) (path posix_extra)]\<rparr>,
           quarantine_manager
             = Some (posix_manager\<lparr>moves := [(path posix_extra, path posix_extra)]\<rparr>),
           actions = [make_action ''abc123'' posix_kept posix_extra
                        ''better folder score (50 vs 10); shorter path'' ''move'' None]\<rparr>)"
    by (simp add: posix_keeper process_file_def posix_reason dispose_def args differ
          posix_quarantine)
  have recorded:
    "action (make_action ''abc123'' posix_kept posix_extra
               ''better folder score (50 vs 10); shorter path'' ''move'' None) = ''move''"
    "error (make_action ''abc123'' posix_kept posix_extra
              ''better folder score (50 vs 10); shorter path'' ''move'' None) = None"
    by (simp_all add: make_action_def)
  show ?thesis
    unfolding st using args posix_paths(5) there dest posix_quarantine run recorded by blast
qed

section \<open>QuarantineStore: where the destination lies\<close>

text \<open>
  C10 does not hold of the code. For a scan of the relative root \<open>..\photos\<close> on Windows
  the file \<open>..\photos\a.txt\<close> takes the fallback branch, and its destination is the quarantine
  root followed by \<open>..\<close>, \<open>photos\<close>, \<open>a.txt\<close>: the first step below the quarantine root
  leaves it again, so the file lands in \<open>..\photos\photos\a.txt\<close>, outside the quarantine
  directory. With the POSIX flavour of \<open>pathlib\<close> an absolute path takes the fallback branch
  too, the sanitized path is still absolute, and the destination is the original path itself.
\<close>

theorem get_quarantine_path_leaves_quarantine_root:
  "quarantine_dir relative_root_manager
     = Path Windows (win_path [''..'', ''photos'', ''_DUPLICATE_QUARANTINE''])
   \<and> relative_to Windows (Path Windows (win_path [''..'', ''photos'', ''a.txt'']))
         (Path Windows [CHR 0x5C]) = Inl ValueError
   \<and> parts (get_quarantine_path Windows relative_root_manager
               (win_path [''..'', ''photos'', ''a.txt'']))
       = parts (quarantine_dir relative_root_manager) @ [''..'', ''photos'', ''a.txt'']
   \<and> path_str Windows (get_quarantine_path Windows relative_root_manager
                            (win_path [''..'', ''photos'', ''a.txt'']))
       = win_path [''..'', ''photos'', ''_DUPLICATE_QUARANTINE'', ''..'', ''photos'', ''a.txt'']
   \<and> quarantine_dir posix_manager = Path Posix ''/home/user/photos/_DUPLICATE_QUARANTINE''
   \<and> get_quarantine_path Posix posix_manager ''/home/user/photos/a.txt''
       = Path Posix ''/home/user/photos/a.txt''"
  by code_simp

section \<open>ContentHasher: the partial fingerprint\<close>

lemma full_hash_updates_concat: "concat (full_hash_updates data hasher) = concat hasher @ data"
proof (induction data hasher rule: full_hash_updates.induct)
  case (1 data hasher)
  show ?case
  proof (cases "take CHUNK_SIZE data = []")
    case True
    then have "data = []" by (auto simp: CHUNK_SIZE_def)
    then show ?thesis by (simp add: full_hash_updates.simps[of "[]"])
  next
    case False
    with 1 show ?thesis
      by (subst full_hash_updates.simps) (simp add: Let_def hasher_update_def)
  qed
qed

lemma compute_full_hash_is_digest:
  "compute_full_hash sha256 w filepath = map_option sha256 (open_rb w filepath)"
  by (simp add: compute_full_hash_def hexdigest_def full_hash_updates_concat split: option.splits)

text \<open>
  C6. For a file that can be read, \<open>compute_partial_hash\<close> feeds the digest first the chunk
  at the start of the file, then a chunk read at the middle if and only if the file size
  exceeds twice the chunk size, then the last chunk if and only if the file size exceeds
  three times the chunk size, in this order, and returns the hex digest of what it fed. For
  a file that cannot be read it returns no hash.
\<close>

theorem partial_fingerprint_start_middle_end:
  "partial_hash_updates data
     = [take CHUNK_SIZE data]
       @ (if length data > 2 * CHUNK_SIZE
          then [take CHUNK_SIZE (drop (length data div 2) data)] else [])
       @ (if length data > 3 * CHUNK_SIZE
          then [take CHUNK_SIZE (drop (length data - CHUNK_SIZE) data)] else [])
   \<and> (open_rb w filepath = Some data
        \<longrightarrow> compute_partial_hash sha256 w filepath
              = Some (sha256 (concat (partial_hash_updates data))))
   \<and> (open_rb w filepath = None \<longrightarrow> compute_partial_hash sha256 w filepath = None)"
  by (simp add: partial_hash_updates_def compute_partial_hash_def hexdigest_def
      hasher_update_def read_at_def Let_def)

theorem partial_fingerprint_start_middle_end_witness:
  "open_rb hashing_world ''small.txt'' = Some (replicate 12 65)
   \<and> compute_partial_hash plain_digest hashing_world ''small.txt''
       = Some (plain_digest (replicate 12 65))
   \<and> partial_hash_updates (replicate 150000 65)
       = [replicate 65536 65, replicate 65536 65]
   \<and> partial_hash_updates (replicate 200000 65)
       = [replicate 65536 65, replicate 65536 65, replicate 65536 65]
   \<and> open_rb hashing_world ''locked.bin'' = None
   \<and> compute_partial_hash plain_digest hashing_world ''locked.bin'' = None"
proof -
  have small: "open_rb hashing_world ''small.txt'' = Some (replicate 12 65)"
    and locked: "open_rb hashing_world ''locked.bin'' = None"
    by (simp_all add: open_rb_def hashing_world_def)
  note t = partial_fingerprint_start_middle_end
  have s: "partial_hash_updates (replicate 12 65 :: bytes) = [replicate 12 65]"
    using t[of "replicate 12 65"] by (simp add: CHUNK_SIZE_def)
  have "compute_partial_hash plain_digest hashing_world ''small.txt''
          = Some (plain_digest (replicate 12 65))"
    using t[of "replicate 12 65" hashing_world "''small.txt''" plain_digest] small s by simp
  moreover have "partial_hash_updates (replicate 150000 65 :: bytes)
       = [replicate 65536 65, replicate 65536 65]"
    using t[of "replicate 150000 65"] by (simp add: CHUNK_SIZE_def)
  moreover have "partial_hash_updates (replicate 200000 65 :: bytes)
       = [replicate 65536 65, replicate 65536 65, replicate 65536 65]"
    using t[of "replicate 200000 65"] by (simp add: CHUNK_SIZE_def)
  moreover have "compute_partial_hash plain_digest hashing_world ''locked.bin'' = None"
    using t[of _ hashing_world "''locked.bin''" plain_digest] locked by simp
  ultimately show ?thesis using small locked by simp
qed

section \<open>ContentHasher: the two-tier pipeline\<close>

lemma group_append_keys:
  "map fst (group_append k v g) = (if k \<in> set (map fst g) then map fst g else map fst g @ [k])"
  by (induction g) (auto split: if_splits)

lemma group_append_distinct:
  "distinct (map fst g) \<Longrightarrow> distinct (map fst (group_append k v g))"
  by (simp add: group_append_keys)

lemma group_append_map_of:
  "map_of (group_append k v g) k'
     = (if k' = k then Some (case map_of g k of None \<Rightarrow> [v] | Some vs \<Rightarrow> vs @ [v])
        else map_of g k')"
  by (induction g) auto

text \<open>What a loop of \<open>group_append\<close> builds: under each key, the values added with it, in order.\<close>

lemma foldl_group_append:
  assumes "distinct (map fst g)"
  shows "distinct (map fst (foldl (\<lambda>g x. group_append (key x) (val x) g) g xs))
       \<and> map_of (foldl (\<lambda>g x. group_append (key x) (val x) g) g xs) k
           = (case map_of g k of
                None \<Rightarrow> (if filter (\<lambda>x. key x = k) xs = [] then None
                           else Some (map val (filter (\<lambda>x. key x = k) xs)))
              | Some vs \<Rightarrow> Some (vs @ map val (filter (\<lambda>x. key x = k) xs)))"
  using assms
proof (induction xs arbitrary: g)
  case Nil
  then show ?case by (simp split: option.splits)
next
  case (Cons x xs)
  have d: "distinct (map fst (group_append (key x) (val x) g))"
    using Cons.prems by (rule group_append_distinct)
  show ?case
    using Cons.IH[OF d]
    by (auto simp: group_append_map_of split: option.splits)
qed

lemma foldl_group_append_member:
  assumes "(k, vs) \<in> set (foldl (\<lambda>g x. group_append (key x) (val x) g) [] xs)"
  shows "vs = map val (filter (\<lambda>x. key x = k) xs) \<and> vs \<noteq> []"
proof -
  let ?r = "foldl (\<lambda>g x. group_append (key x) (val x) g) [] xs"
  have f: "distinct (map fst ?r)"
    "map_of ?r k = (if filter (\<lambda>x. key x = k) xs = [] then None
                    else Some (map val (filter (\<lambda>x. key x = k) xs)))"
    using foldl_group_append[of "[]" key val xs k] by simp_all
  from f(1) assms have "map_of ?r k = Some vs" by simp
  with f(2) show ?thesis by (auto split: if_splits)
qed

lemma collect_partial_foldl:
  "collect_partial sha256 w xs g
     = foldl (\<lambda>g x. group_append (the (compute_partial_hash sha256 w (path x))) x g) g
         (filter (\<lambda>x. truthy (compute_partial_hash sha256 w (path x))) xs)"
  by (induction xs arbitrary: g) (simp_all add: Let_def)

lemma collect_full_foldl:
  "collect_full sha256 w xs g
     = foldl (\<lambda>g x. group_append (the (compute_full_hash sha256 w (path x)))
                      (x\<lparr>hash := compute_full_hash sha256 w (path x)\<rparr>) g) g
         (filter (\<lambda>x. truthy (compute_full_hash sha256 w (path x))) xs)"
  by (induction xs arbitrary: g) (simp_all add: Let_def)

lemma foldl_group_append_distinct:
  "distinct (map fst (foldl (\<lambda>g x. group_append (key x) (val x) g) [] xs))"
  using foldl_group_append[of "[]" key val xs undefined] by simp

lemma collect_distinct_keys:
  "distinct (map fst (collect_partial sha256 w xs []))"
  "distinct (map fst (collect_full sha256 w xs []))"
  unfolding collect_partial_foldl collect_full_foldl
  by (rule foldl_group_append_distinct)+

lemma truthy_the: "truthy h \<Longrightarrow> the h = k \<longleftrightarrow> h = Some k"
  by (cases h) (auto simp: truthy_def)

lemma collect_partial_member:
  assumes "(k, files) \<in> set (collect_partial sha256 w xs [])"
  shows "files = filter (\<lambda>x. compute_partial_hash sha256 w (path x) = Some k) xs
       \<and> files \<noteq> [] \<and> k \<noteq> []"
proof -
  let ?ph = "\<lambda>x::FileInfo. compute_partial_hash sha256 w (path x)"
  note mm = foldl_group_append_member[of k files "\<lambda>x. the (?ph x)" "\<lambda>x. x"
      "filter (\<lambda>x. truthy (?ph x)) xs", OF assms[unfolded collect_partial_foldl]]
  have m1: "files = filter (\<lambda>x. the (?ph x) = k) (filter (\<lambda>x. truthy (?ph x)) xs)"
    using mm[THEN conjunct1] by (simp only: map_ident)
  have m2: "files \<noteq> []" by (rule mm[THEN conjunct2])
  note m = m1 m2
  let ?zs = "filter (\<lambda>x. the (?ph x) = k) (filter (\<lambda>x. truthy (?ph x)) xs)"
  have "?zs \<noteq> []" using m by simp
  then have "last ?zs \<in> set ?zs" by (rule last_in_set)
  then obtain x :: FileInfo where tx: "truthy (?ph x)" "the (?ph x) = k" by auto
  then have k: "k \<noteq> []" by (cases "?ph x") (auto simp: truthy_def)
  have "(truthy (?ph y) \<and> the (?ph y) = k) \<longleftrightarrow> ?ph y = Some k" for y
    using k by (cases "?ph y") (auto simp: truthy_def)
  then have "files = filter (\<lambda>x. ?ph x = Some k) xs"
    using m(1) by (simp add: conj_commute)
  with m(2) k show ?thesis by simp
qed

lemma collect_full_member:
  assumes "(k, files) \<in> set (collect_full sha256 w xs [])"
  shows "files = map (\<lambda>x. x\<lparr>hash := Some k\<rparr>)
                   (filter (\<lambda>x. compute_full_hash sha256 w (path x) = Some k) xs)
       \<and> files \<noteq> [] \<and> k \<noteq> []"
proof -
  let ?fh = "\<lambda>x::FileInfo. compute_full_hash sha256 w (path x)"
  note mm = foldl_group_append_member[of k files "\<lambda>x. the (?fh x)" "\<lambda>x. x\<lparr>hash := ?fh x\<rparr>"
      "filter (\<lambda>x. truthy (?fh x)) xs", OF assms[unfolded collect_full_foldl]]
  have m: "files = map (\<lambda>x. x\<lparr>hash := ?fh x\<rparr>)
              (filter (\<lambda>x. the (?fh x) = k) (filter (\<lambda>x. truthy (?fh x)) xs))" "files \<noteq> []"
    by (rule mm[THEN conjunct1], rule mm[THEN conjunct2])
  let ?zs = "filter (\<lambda>x. the (?fh x) = k) (filter (\<lambda>x. truthy (?fh x)) xs)"
  have "?zs \<noteq> []" using m by (metis Nil_is_map_conv)
  then have "last ?zs \<in> set ?zs" by (rule last_in_set)
  then obtain x :: FileInfo where x: "truthy (?fh x)" "the (?fh x) = k" by auto
  then have k: "k \<noteq> []" by (cases "?fh x") (auto simp: truthy_def)
  have e: "(truthy (?fh y) \<and> the (?fh y) = k) \<longleftrightarrow> ?fh y = Some k" for y
    using k by (cases "?fh y") (auto simp: truthy_def)
  have "filter (\<lambda>x. the (?fh x) = k) (filter (\<lambda>x. truthy (?fh x)) xs)
          = filter (\<lambda>x. ?fh x = Some k) xs"
    using e by (simp add: conj_commute)
  with m(1) have "files = map (\<lambda>x. x\<lparr>hash := ?fh x\<rparr>) (filter (\<lambda>x. ?fh x = Some k) xs)"
    by simp
  also have "\<dots> = map (\<lambda>x. x\<lparr>hash := Some k\<rparr>) (filter (\<lambda>x. ?fh x = Some k) xs)"
    by (rule map_cong) auto
  finally show ?thesis using m(2) k by simp
qed

lemma filter_length_mset:
  "mset xs = mset ys \<Longrightarrow> length (filter P xs) = length (filter P ys)"
  by (metis mset_filter size_mset)

lemma candidate_files_member:
  assumes "\<And>xs. mset (completion1 xs) = mset xs"
    and "f \<in> set (candidate_files sha256 completion1 w size_groups)"
  shows "f \<in> set (concat (map snd size_groups))
       \<and> truthy (compute_partial_hash sha256 w (path f))
       \<and> 2 \<le> length (filter (\<lambda>g. compute_partial_hash sha256 w (path g)
                                     = compute_partial_hash sha256 w (path f))
                         (concat (map snd size_groups)))"
proof -
  let ?sub = "concat (map snd size_groups)"
  let ?xs = "completion1 ?sub"
  let ?ph = "\<lambda>x::FileInfo. compute_partial_hash sha256 w (path x)"
  from assms(2) obtain k files where
    g: "(k, files) \<in> set (collect_partial sha256 w ?xs [])" "length files > 1" "f \<in> set files"
    by (auto simp: candidate_files_def Let_def)
  from collect_partial_member[OF g(1)] have
    m: "files = filter (\<lambda>x. ?ph x = Some k) ?xs" "k \<noteq> []" by simp_all
  from g(3) m(1) have f: "f \<in> set ?xs" "?ph f = Some k" by auto
  have s: "set ?xs = set ?sub" using assms(1)[of ?sub] by (rule mset_eq_setD)
  have "length (filter (\<lambda>g. ?ph g = ?ph f) ?sub) = length (filter (\<lambda>g. ?ph g = ?ph f) ?xs)"
    using assms(1)[of ?sub] by (intro filter_length_mset) simp
  also have "\<dots> = length files" using m(1) f(2) by simp
  finally have "2 \<le> length (filter (\<lambda>g. ?ph g = ?ph f) ?sub)" using g(2) by simp
  moreover have "truthy (?ph f)" using f(2) m(2) by (simp add: truthy_def)
  ultimately show ?thesis using f(1) s by simp
qed

text \<open>
  C4. Whatever the order in which the hashing tasks complete: every file submitted for the
  full hash has a partial fingerprint (its computation succeeded) that at least two of the
  submitted files share; the hash groups returned have distinct keys and at least two members
  each; and every member of a returned group is a file submitted for the full hash, stored
  with its hash, whose partial and full hash computations both succeeded. So a file whose
  partial or full hash computation returns no hash is in no group.
\<close>

theorem hashing_pipeline_two_tier:
  assumes "\<And>xs. mset (completion1 xs) = mset xs" and "\<And>xs. mset (completion2 xs) = mset xs"
  shows "(\<forall>f\<in>set (candidate_files sha256 completion1 w size_groups).
            f \<in> set (concat (map snd size_groups))
          \<and> truthy (compute_partial_hash sha256 w (path f))
          \<and> 2 \<le> length (filter (\<lambda>g. compute_partial_hash sha256 w (path g)
                                        = compute_partial_hash sha256 w (path f))
                            (concat (map snd size_groups))))
       \<and> distinct (map fst (find_duplicates_by_hash sha256 completion1 completion2 w size_groups))
       \<and> (\<forall>(h, files)\<in>set (find_duplicates_by_hash sha256 completion1 completion2 w size_groups).
            2 \<le> length files
          \<and> (\<forall>f\<in>set files.
                hash f = Some h
              \<and> (\<exists>x\<in>set (candidate_files sha256 completion1 w size_groups). f = x\<lparr>hash := Some h\<rparr>)
              \<and> truthy (compute_partial_hash sha256 w (path f))
              \<and> truthy (compute_full_hash sha256 w (path f))
              \<and> compute_full_hash sha256 w (path f) = Some h))"
proof -
  let ?cands = "candidate_files sha256 completion1 w size_groups"
  let ?result = "find_duplicates_by_hash sha256 completion1 completion2 w size_groups"
  let ?ys = "completion2 ?cands"
  have first: "\<forall>f\<in>set ?cands.
            f \<in> set (concat (map snd size_groups))
          \<and> truthy (compute_partial_hash sha256 w (path f))
          \<and> 2 \<le> length (filter (\<lambda>g. compute_partial_hash sha256 w (path g)
                                        = compute_partial_hash sha256 w (path f))
                            (concat (map snd size_groups)))"
    using candidate_files_member[OF assms(1)] by blast
  have keys: "distinct (map fst ?result)"
    by (simp add: find_duplicates_by_hash_def Let_def distinct_map_filter collect_distinct_keys)
  have s: "set ?ys = set ?cands" using assms(2)[of ?cands] by (rule mset_eq_setD)
  have second: "2 \<le> length files
          \<and> (\<forall>f\<in>set files.
                hash f = Some h
              \<and> (\<exists>x\<in>set ?cands. f = x\<lparr>hash := Some h\<rparr>)
              \<and> truthy (compute_partial_hash sha256 w (path f))
              \<and> truthy (compute_full_hash sha256 w (path f))
              \<and> compute_full_hash sha256 w (path f) = Some h)"
    if g: "(h, files) \<in> set ?result" for h files
  proof -
    from g have len: "length files > 1" and
      mem: "(h, files) \<in> set (collect_full sha256 w ?ys [])"
      by (auto simp: find_duplicates_by_hash_def Let_def split: if_splits)
    from collect_full_member[OF mem] have
      m: "files = map (\<lambda>x. x\<lparr>hash := Some h\<rparr>)
                    (filter (\<lambda>x. compute_full_hash sha256 w (path x) = Some h) ?ys)"
      "h \<noteq> []" by simp_all
    have "hash f = Some h
        \<and> (\<exists>x\<in>set ?cands. f = x\<lparr>hash := Some h\<rparr>)
        \<and> truthy (compute_partial_hash sha256 w (path f))
        \<and> truthy (compute_full_hash sha256 w (path f))
        \<and> compute_full_hash sha256 w (path f) = Some h" if "f \<in> set files" for f
    proof -
      from that m(1) obtain x where
        x: "x \<in> set ?ys" "compute_full_hash sha256 w (path x) = Some h" "f = x\<lparr>hash := Some h\<rparr>"
        by auto
      from x(1) s have c: "x \<in> set ?cands" by simp
      from candidate_files_member[OF assms(1) c]
      have "truthy (compute_partial_hash sha256 w (path x))" by simp
      with x c m(2) show ?thesis by (auto simp: truthy_def)
    qed
    then have all: "\<forall>f\<in>set files.
                hash f = Some h
              \<and> (\<exists>x\<in>set ?cands. f = x\<lparr>hash := Some h\<rparr>)
              \<and> truthy (compute_partial_hash sha256 w (path f))
              \<and> truthy (compute_full_hash sha256 w (path f))
              \<and> compute_full_hash sha256 w (path f) = Some h"
      by blast
    have "2 \<le> length files" using len by simp
    with all show ?thesis by blast
  qed
  show ?thesis using first keys second by blast
qed

lemma partial_hash_small:
  "length data \<le> CHUNK_SIZE \<Longrightarrow> partial_hash_updates data = [data]"
  by (simp add: partial_hash_updates_def hasher_update_def read_at_def Let_def)

lemma compute_partial_hash_small:
  "open_rb w p = Some data \<Longrightarrow> length data \<le> CHUNK_SIZE
   \<Longrightarrow> compute_partial_hash sha256 w p = Some (sha256 data)"
  by (simp add: compute_partial_hash_def hexdigest_def partial_hash_small)

lemma demo_digests: "plain_digest [104, 101, 108, 108, 111] = ''hello''"
  "plain_digest [119, 111, 114, 108, 100] = ''world''"
  by code_simp+

lemma demo_open:
  "open_rb pipeline_world ''a.txt'' = Some [104, 101, 108, 108, 111]"
  "open_rb pipeline_world ''b.txt'' = Some [104, 101, 108, 108, 111]"
  "open_rb pipeline_world ''c.txt'' = Some [119, 111, 114, 108, 100]"
  "open_rb pipeline_world ''d.txt'' = None"
  by (simp_all add: open_rb_def pipeline_world_def)

lemma demo_hashes:
  "compute_partial_hash plain_digest pipeline_world ''a.txt'' = Some ''hello''"
  "compute_partial_hash plain_digest pipeline_world ''b.txt'' = Some ''hello''"
  "compute_partial_hash plain_digest pipeline_world ''c.txt'' = Some ''world''"
  "compute_partial_hash plain_digest pipeline_world ''d.txt'' = None"
  "compute_full_hash plain_digest pipeline_world ''a.txt'' = Some ''hello''"
  "compute_full_hash plain_digest pipeline_world ''b.txt'' = Some ''hello''"
  using compute_partial_hash_small[OF demo_open(1), of plain_digest]
    compute_partial_hash_small[OF demo_open(2), of plain_digest]
    compute_partial_hash_small[OF demo_open(3), of plain_digest]
  by (simp_all add: compute_full_hash_is_digest demo_open demo_digests CHUNK_SIZE_def
      compute_partial_hash_def[of _ _ "''d.txt''"])

lemma demo_pipeline:
  "candidate_files plain_digest rev pipeline_world pipeline_input
     = [file_named ''b.txt'', file_named ''a.txt'']"
  "find_duplicates_by_hash plain_digest rev rev pipeline_world pipeline_input
     = [(''hello'', [(file_named ''a.txt'')\<lparr>hash := Some ''hello''\<rparr>,
                     (file_named ''b.txt'')\<lparr>hash := Some ''hello''\<rparr>])]"
  by (simp_all add: find_duplicates_by_hash_def candidate_files_def pipeline_input_def file_named_def
      demo_hashes truthy_def Let_def)

theorem hashing_pipeline_two_tier_witness:
  "(\<forall>xs :: FileInfo list. mset (rev xs) = mset xs)
   \<and> candidate_files plain_digest rev pipeline_world pipeline_input
       = [file_named ''b.txt'', file_named ''a.txt'']
   \<and> find_duplicates_by_hash plain_digest rev rev pipeline_world pipeline_input
       = [(''hello'', [(file_named ''a.txt'')\<lparr>hash := Some ''hello''\<rparr>,
                       (file_named ''b.txt'')\<lparr>hash := Some ''hello''\<rparr>])]
   \<and> truthy (compute_partial_hash plain_digest pipeline_world ''a.txt'')
   \<and> truthy (compute_partial_hash plain_digest pipeline_world ''b.txt'')
   \<and> 2 \<le> length (filter (\<lambda>g. compute_partial_hash plain_digest pipeline_world (path g)
                                 = compute_partial_hash plain_digest pipeline_world ''a.txt'')
                     (concat (map snd pipeline_input)))
   \<and> compute_full_hash plain_digest pipeline_world ''a.txt'' = Some ''hello''
   \<and> compute_full_hash plain_digest pipeline_world ''b.txt'' = Some ''hello''"
proof -
  have p: "mset (rev xs) = mset xs" for xs :: "FileInfo list" by simp
  note t = hashing_pipeline_two_tier[of rev rev plain_digest pipeline_world pipeline_input,
      OF p p, unfolded demo_pipeline]
  have a: "\<forall>f\<in>set [file_named ''b.txt'', file_named ''a.txt''].
         truthy (compute_partial_hash plain_digest pipeline_world (path f))
       \<and> 2 \<le> length (filter (\<lambda>g. compute_partial_hash plain_digest pipeline_world (path g)
                                     = compute_partial_hash plain_digest pipeline_world (path f))
                         (concat (map snd pipeline_input)))"
    using t by blast
  have b: "\<forall>(h, files)\<in>set [(''hello'', [(file_named ''a.txt'')\<lparr>hash := Some ''hello''\<rparr>,
                                         (file_named ''b.txt'')\<lparr>hash := Some ''hello''\<rparr>])].
         \<forall>f\<in>set files. compute_full_hash plain_digest pipeline_world (path f) = Some h"
    using t by blast
  have pa: "path (file_named ''a.txt'') = ''a.txt''" "path (file_named ''b.txt'') = ''b.txt''"
    by (simp_all add: file_named_def)
  from a have a': "truthy (compute_partial_hash plain_digest pipeline_world ''a.txt'')"
    "truthy (compute_partial_hash plain_digest pipeline_world ''b.txt'')"
    "2 \<le> length (filter (\<lambda>g. compute_partial_hash plain_digest pipeline_world (path g)
                                 = compute_partial_hash plain_digest pipeline_world ''a.txt'')
                     (concat (map snd pipeline_input)))"
    using pa by (metis list.set_intros(1,2))+
  from b have b': "compute_full_hash plain_digest pipeline_world ''a.txt'' = Some ''hello''"
    "compute_full_hash plain_digest pipeline_world ''b.txt'' = Some ''hello''"
    by (simp_all add: file_named_def)
  show ?thesis using p a' b' demo_pipeline by blast
qed

section \<open>PathFilter\<close>

lemma path_match_empty_pattern:
  "parts (parse_parts fl [casefold fl pat]) = [] \<Longrightarrow> path_match fl fnmatchcase p pat = Inl ValueError"
  by (simp add: path_match_def Let_def)

lemma path_match_defined:
  "parts (parse_parts fl [casefold fl pat]) \<noteq> [] \<Longrightarrow> \<exists>b. path_match fl fnmatchcase p pat = Inr b"
  by (simp add: path_match_def Let_def)

lemma glob_loop_decides:
  assumes "\<forall>pat\<in>set pats. parts (parse_parts fl [casefold fl (lower pat)]) \<noteq> []"
  shows "glob_loop fl fnmatchcase p pats
           = Inr (\<exists>pat\<in>set pats. path_match fl fnmatchcase p (lower pat) = Inr True)"
  using assms
proof (induction pats)
  case Nil
  then show ?case by simp
next
  case (Cons pat pats)
  then obtain b where b: "path_match fl fnmatchcase p (lower pat) = Inr b"
    using path_match_defined[of fl "lower pat" fnmatchcase p] by auto
  with Cons show ?case by (cases b) auto
qed

lemma should_skip_path_unresolved:
  assumes "resolve p = Inl OSError \<or> resolve p = Inl RuntimeError"
  shows "should_skip_path fl resolve fnmatchcase sc p = Inr True"
  using assms by (auto simp: should_skip_path_def)

lemma should_skip_path_resolved:
  assumes "resolve p = Inr resolved"
    and "\<forall>pat\<in>set (exclude_globs sc). parts (parse_parts fl [casefold fl (lower pat)]) \<noteq> []"
  shows "should_skip_path fl resolve fnmatchcase sc p
           = Inr (under_excluded fl sc resolved
                  \<or> (\<exists>pat\<in>set (exclude_globs sc).
                        path_match fl fnmatchcase (Path fl (lower (path_str fl p))) (lower pat)
                          = Inr True)
                  \<or> lower (suffix p) \<in> set (skip_extensions sc))"
proof -
  let ?g = "\<exists>pat\<in>set (exclude_globs sc).
              path_match fl fnmatchcase (Path fl (lower (path_str fl p))) (lower pat) = Inr True"
  have g: "glob_loop fl fnmatchcase (Path fl (lower (path_str fl p))) (exclude_globs sc)
             = Inr ?g"
    using assms(2) by (rule glob_loop_decides)
  show ?thesis
    using assms(1) g by (cases ?g) (simp_all add: should_skip_path_def Let_def)
qed

text \<open>
  C8, as the code has it. \<open>should_skip_path\<close> returns true when resolving the path raises
  \<open>OSError\<close> or \<open>RuntimeError\<close>. When the path resolves and no exclusion glob is an empty
  pattern (one without components, which \<open>match\<close> rejects), it returns true if and only if
  the resolved path equals or lies under an excluded directory, or the lower-cased path
  matches a lower-cased exclusion glob, or the lower-cased suffix of the path is in the set
  of extensions to skip; it raises nothing then.
\<close>

theorem should_skip_path_decides:
  "(resolve p = Inl OSError \<or> resolve p = Inl RuntimeError
      \<longrightarrow> should_skip_path fl resolve fnmatchcase sc p = Inr True)
   \<and> (\<forall>resolved.
         resolve p = Inr resolved
       \<and> (\<forall>pat\<in>set (exclude_globs sc). parts (parse_parts fl [casefold fl (lower pat)]) \<noteq> [])
       \<longrightarrow> should_skip_path fl resolve fnmatchcase sc p
             = Inr (under_excluded fl sc resolved
                    \<or> (\<exists>pat\<in>set (exclude_globs sc).
                          path_match fl fnmatchcase (Path fl (lower (path_str fl p))) (lower pat)
                            = Inr True)
                    \<or> lower (suffix p) \<in> set (skip_extensions sc)))"
  using should_skip_path_unresolved[of resolve p fl fnmatchcase sc]
    should_skip_path_resolved[of resolve p _ sc fl fnmatchcase]
  by blast

lemma demo_skip:
  "should_skip_path Windows resolve_self star_fnmatch demo_scanner (Path Windows ''D:/data/a.Tmp'')
     = Inr True"
  "should_skip_path Windows resolve_self star_fnmatch demo_scanner (Path Windows ''D:/data/a.txt'')
     = Inr False"
  "should_skip_path Windows resolve_self star_fnmatch demo_scanner (Path Windows ''D:/data/A.LOG'')
     = Inr True"
  "should_skip_path Windows resolve_self star_fnmatch demo_scanner
     (Path Windows ''D:/DATA/Excluded/sub/a.txt'') = Inr True"
  "should_skip_path Windows resolve_self star_fnmatch demo_scanner
     (Path Windows ''D:/data/broken.lnk'') = Inr True"
  by code_simp+

text \<open>With an empty exclusion glob the check raises \<open>ValueError\<close> to its caller.\<close>

theorem should_skip_path_raises_on_empty_glob:
  "should_skip_path Windows resolve_self star_fnmatch empty_glob_scanner
     (Path Windows ''D:/data/a.txt'') = Inl ValueError"
  by code_simp

theorem should_skip_path_decides_witness:
  "resolve_self (Path Windows ''D:/data/a.txt'') = Inr (Path Windows ''D:/data/a.txt'')
   \<and> parts (parse_parts Windows [casefold Windows (lower ''*.TMP'')]) \<noteq> []
   \<and> should_skip_path Windows resolve_self star_fnmatch demo_scanner
         (Path Windows ''D:/data/a.txt'') = Inr False
   \<and> \<not> under_excluded Windows demo_scanner (Path Windows ''D:/data/a.txt'')
   \<and> lower (suffix (Path Windows ''D:/data/a.txt'')) \<notin> set (skip_extensions demo_scanner)
   \<and> resolve_self (Path Windows ''D:/data/broken.lnk'') = Inl OSError
   \<and> should_skip_path Windows resolve_self star_fnmatch demo_scanner
         (Path Windows ''D:/data/broken.lnk'') = Inr True"
proof -
  let ?p = "Path Windows ''D:/data/a.txt''"
  let ?q = "Path Windows ''D:/data/broken.lnk''"
  have r: "resolve_self ?p = Inr ?p" "resolve_self ?q = Inl OSError" by code_simp+
  have g: "parts (parse_parts Windows [casefold Windows (lower ''*.TMP'')]) \<noteq> []" by code_simp
  then have gs: "\<forall>pat\<in>set (exclude_globs demo_scanner).
                  parts (parse_parts Windows [casefold Windows (lower pat)]) \<noteq> []"
    by (simp add: demo_scanner_def)
  note t = should_skip_path_decides[of resolve_self _ Windows star_fnmatch demo_scanner]
  from t[of ?q] r(2) have broken:
    "should_skip_path Windows resolve_self star_fnmatch demo_scanner ?q = Inr True" by blast
  from t[of ?p] r(1) gs have
    "should_skip_path Windows resolve_self star_fnmatch demo_scanner ?p
       = Inr (under_excluded Windows demo_scanner ?p
              \<or> (\<exists>pat\<in>set (exclude_globs demo_scanner).
                    path_match Windows star_fnmatch
                      (Path Windows (lower (path_str Windows ?p))) (lower pat) = Inr True)
              \<or> lower (suffix ?p) \<in> set (skip_extensions demo_scanner))"
    by blast
  with demo_skip(2) have
    "\<not> under_excluded Windows demo_scanner ?p"
    "lower (suffix ?p) \<notin> set (skip_extensions demo_scanner)"
    by simp_all
  with r g broken demo_skip(2) show ?thesis by blast
qed

section \<open>Traverser\<close>

lemma group_append_pred:
  assumes "\<forall>(k, vs)\<in>set g. \<forall>v\<in>set vs. P k v" and "P k0 v0"
  shows "\<forall>(k, vs)\<in>set (group_append k0 v0 g). \<forall>v\<in>set vs. P k v"
  using assms(1)
proof (induction g)
  case Nil
  with assms(2) show ?case by simp
next
  case (Cons a g)
  obtain k' vs' where a: "a = (k', vs')" by (cases a)
  from Cons.prems a have here: "\<forall>v\<in>set vs'. P k' v"
    and rest: "\<forall>(k, vs)\<in>set g. \<forall>v\<in>set vs. P k v" by auto
  show ?case
  proof (cases "k0 = k'")
    case True
    with a here rest assms(2) show ?thesis by auto
  next
    case False
    with a here Cons.IH[OF rest] show ?thesis by auto
  qed
qed

lemma scan_files_invariant:
  assumes "scan_files fl resolve fnmatchcase sc root_path entries state = Inr state'"
    and "\<forall>(k, vs)\<in>set (fst state). \<forall>v\<in>set vs. P k v"
    and "distinct (map fst (fst state))"
    and "\<And>fp (stat :: stat_result). should_skip_path fl resolve fnmatchcase sc fp = Inr False
           \<Longrightarrow> min_size sc \<le> st_size stat \<Longrightarrow> st_size stat \<le> max_size sc
           \<Longrightarrow> P (st_size stat)
                 \<lparr>path = path_str fl fp, size_f = st_size stat, ctime = st_ctime stat,
                  mtime = st_mtime stat, hash = None, folder_score = None\<rparr>"
  shows "(\<forall>(k, vs)\<in>set (fst state'). \<forall>v\<in>set vs. P k v) \<and> distinct (map fst (fst state'))"
  using assms
proof (induction fl resolve fnmatchcase sc root_path entries state rule: scan_files.induct)
  case (1 fl resolve fnmatchcase sc root_path state)
  then show ?case by simp
next
  case (2 fl resolve fnmatchcase sc root_path d link children entries state)
  from "2.prems"(1) have "scan_files fl resolve fnmatchcase sc root_path entries state = Inr state'"
    by simp
  from "2.IH"[OF this "2.prems"(2,3,4)] show ?case by simp
next
  case (3 fl resolve fnmatchcase sc root_path filename st entries size_groups files_scanned)
  note admit = "3.prems"(4)
  let ?fp = "truediv fl root_path filename"
  let ?st = "(size_groups, files_scanned)"
  show ?case
  proof (cases "should_skip_path fl resolve fnmatchcase sc ?fp")
    case (Inl e)
    with "3.prems"(1) show ?thesis by (simp add: Let_def)
  next
    case (Inr skip)
    show ?thesis
    proof (cases skip)
      case True
      with Inr "3.prems"(1)
      have run: "scan_files fl resolve fnmatchcase sc root_path entries ?st = Inr state'"
        by (simp add: Let_def)
      from Inr True have s: "should_skip_path fl resolve fnmatchcase sc ?fp = Inr True" by simp
      show ?thesis
        by (rule "3.IH"(1)[OF refl s refl run "3.prems"(2,3,4)])
    next
      case False
      with Inr have s: "should_skip_path fl resolve fnmatchcase sc ?fp = Inr False" by simp
      show ?thesis
      proof (cases st)
        case None
        with s "3.prems"(1)
        have run: "scan_files fl resolve fnmatchcase sc root_path entries ?st = Inr state'"
          by (simp add: Let_def)
        show ?thesis
          by (rule "3.IH"(2)[OF refl s refl None run "3.prems"(2,3,4)])
      next
        case (Some stat)
        show ?thesis
        proof (cases "st_size stat < min_size sc \<or> st_size stat > max_size sc")
          case True
          with s Some "3.prems"(1)
          have run: "scan_files fl resolve fnmatchcase sc root_path entries ?st = Inr state'"
            by (simp add: Let_def)
          show ?thesis
            by (rule "3.IH"(3)[OF refl s refl Some True run "3.prems"(2,3,4)])
        next
          case False
          let ?fi = "\<lparr>path = path_str fl ?fp, size_f = st_size stat, ctime = st_ctime stat,
                       mtime = st_mtime stat, hash = None, folder_score = None\<rparr>"
          let ?g = "group_append (st_size stat) ?fi size_groups"
          have p: "P (st_size stat) ?fi"
          proof (rule admit)
            show "should_skip_path fl resolve fnmatchcase sc ?fp = Inr False" by (rule s)
            show "min_size sc \<le> st_size stat" "st_size stat \<le> max_size sc"
              using False by simp_all
          qed
          have inv: "\<forall>(k, vs)\<in>set (fst (?g, files_scanned + 1)). \<forall>v\<in>set vs. P k v"
            using "3.prems"(2) p group_append_pred[of size_groups P "st_size stat" ?fi] by simp
          have d: "distinct (map fst (fst (?g, files_scanned + 1)))"
            using "3.prems"(3) by (simp add: group_append_distinct)
          have run: "scan_files fl resolve fnmatchcase sc root_path entries (?g, files_scanned + 1)
                       = Inr state'"
            using "3.prems"(1) s Some False by (simp add: Let_def)
          show ?thesis
            by (rule "3.IH"(4)[OF refl s refl Some False refl run inv d "3.prems"(4)])
        qed
      qed
    qed
  qed
qed

lemma walk_invariant:
  "walk_dir fl resolve fnmatchcase sc root_path entries state = Inr state'
   \<Longrightarrow> (\<forall>(k, vs)\<in>set (fst state). \<forall>v\<in>set vs. P k v) \<and> distinct (map fst (fst state))
   \<Longrightarrow> (\<forall>fp (stat :: stat_result). should_skip_path fl resolve fnmatchcase sc fp = Inr False
           \<longrightarrow> min_size sc \<le> st_size stat \<longrightarrow> st_size stat \<le> max_size sc
           \<longrightarrow> P (st_size stat)
                 \<lparr>path = path_str fl fp, size_f = st_size stat, ctime = st_ctime stat,
                  mtime = st_mtime stat, hash = None, folder_score = None\<rparr>)
   \<Longrightarrow> (\<forall>(k, vs)\<in>set (fst state'). \<forall>v\<in>set vs. P k v) \<and> distinct (map fst (fst state'))"
  "walk_dirs fl resolve fnmatchcase sc root_path subdirs state = Inr state'
   \<Longrightarrow> (\<forall>(k, vs)\<in>set (fst state). \<forall>v\<in>set vs. P k v) \<and> distinct (map fst (fst state))
   \<Longrightarrow> (\<forall>fp (stat :: stat_result). should_skip_path fl resolve fnmatchcase sc fp = Inr False
           \<longrightarrow> min_size sc \<le> st_size stat \<longrightarrow> st_size stat \<le> max_size sc
           \<longrightarrow> P (st_size stat)
                 \<lparr>path = path_str fl fp, size_f = st_size stat, ctime = st_ctime stat,
                  mtime = st_mtime stat, hash = None, folder_score = None\<rparr>)
   \<Longrightarrow> (\<forall>(k, vs)\<in>set (fst state'). \<forall>v\<in>set vs. P k v) \<and> distinct (map fst (fst state'))"
proof (induction fl resolve fnmatchcase sc root_path entries state
    and fl resolve fnmatchcase sc root_path subdirs state
    arbitrary: state' and state' rule: walk_dir_walk_dirs.induct)
  case (1 fl resolve fnmatchcase sc root_path entries state)
  from "1.prems"(1) obtain kept mid where
    k: "prune_dirs fl resolve fnmatchcase sc root_path entries = Inr kept"
    and m: "scan_files fl resolve fnmatchcase sc root_path entries state = Inr mid"
    and w: "walk_dirs fl resolve fnmatchcase sc root_path kept mid = Inr state'"
    by (auto split: sum.splits)
  have "(\<forall>(k, vs)\<in>set (fst mid). \<forall>v\<in>set vs. P k v) \<and> distinct (map fst (fst mid))"
    using "1.prems"(2,3) by (intro scan_files_invariant[OF m]) blast+
  from "1.IH"[OF k m w this "1.prems"(3)] show ?case .
next
  case (2 fl resolve fnmatchcase sc root_path state)
  then show ?case by simp
next
  case (3 fl resolve fnmatchcase sc root_path f st subdirs state)
  from "3.prems"(1) have "walk_dirs fl resolve fnmatchcase sc root_path subdirs state = Inr state'"
    by simp
  from "3.IH"[OF this "3.prems"(2,3)] show ?case .
next
  case (4 fl resolve fnmatchcase sc root_path d link children subdirs state)
  show ?case
  proof (cases link)
    case True
    with "4.prems"(1)
    have "walk_dirs fl resolve fnmatchcase sc root_path subdirs state = Inr state'" by simp
    from "4.IH"(1)[OF True this "4.prems"(2,3)] show ?thesis .
  next
    case False
    with "4.prems"(1) obtain mid where
      m: "walk_dir fl resolve fnmatchcase sc (truediv fl root_path d) children state = Inr mid"
      and w: "walk_dirs fl resolve fnmatchcase sc root_path subdirs mid = Inr state'"
      by (auto split: sum.splits)
    note i = "4.IH"(2)[OF False m "4.prems"(2,3)]
    from "4.IH"(3)[OF False m w i "4.prems"(3)] show ?thesis .
  qed
qed

lemma should_skip_path_false:
  assumes "should_skip_path fl resolve fnmatchcase sc fp = Inr False"
  shows "\<exists>resolved. resolve fp = Inr resolved \<and> \<not> under_excluded fl sc resolved
           \<and> lower (suffix fp) \<notin> set (skip_extensions sc)"
  using assms
  by (auto simp: should_skip_path_def Let_def split: sum.splits if_splits bool.splits)

lemma should_skip_path_returns:
  assumes "\<forall>pat\<in>set (exclude_globs sc). parts (parse_parts fl [casefold fl (lower pat)]) \<noteq> []"
    and "\<forall>p e. resolve p = Inl e \<longrightarrow> e = OSError \<or> e = RuntimeError"
  shows "\<exists>b. should_skip_path fl resolve fnmatchcase sc fp = Inr b"
proof (cases "resolve fp")
  case (Inl e)
  with assms(2) show ?thesis by (auto simp: should_skip_path_def)
next
  case (Inr resolved)
  from should_skip_path_resolved[of resolve fp resolved sc fl fnmatchcase] Inr assms(1)
  show ?thesis by blast
qed

lemma prune_dirs_returns:
  assumes "\<And>fp. \<exists>b. should_skip_path fl resolve fnmatchcase sc fp = Inr b"
  shows "\<exists>kept. prune_dirs fl resolve fnmatchcase sc root_path entries = Inr kept"
proof (induction entries)
  case Nil
  show ?case by simp
next
  case (Cons n entries)
  then obtain kept where k: "prune_dirs fl resolve fnmatchcase sc root_path entries = Inr kept"
    by blast
  show ?case
  proof (cases n)
    case (FileNode f st)
    with k show ?thesis by simp
  next
    case (DirNode d link children)
    from assms[of "truediv fl root_path d"] obtain b where
      "should_skip_path fl resolve fnmatchcase sc (truediv fl root_path d) = Inr b" by blast
    with k DirNode show ?thesis by simp
  qed
qed

lemma scan_files_returns:
  assumes "\<And>fp. \<exists>b. should_skip_path fl resolve fnmatchcase sc fp = Inr b"
  shows "\<exists>state'. scan_files fl resolve fnmatchcase sc root_path entries state = Inr state'"
proof (induction entries arbitrary: state)
  case Nil
  show ?case by simp
next
  case (Cons n entries)
  obtain size_groups files_scanned where st: "state = (size_groups, files_scanned)"
    by (cases state)
  show ?case
  proof (cases n)
    case (DirNode d link children)
    with Cons[of state] show ?thesis by simp
  next
    case (FileNode filename stt)
    from assms[of "truediv fl root_path filename"] obtain b where
      b: "should_skip_path fl resolve fnmatchcase sc (truediv fl root_path filename) = Inr b"
      by blast
    show ?thesis
      using FileNode st b Cons[of "(size_groups, files_scanned)"]
        Cons[of "(group_append (st_size (the stt))
                   \<lparr>path = path_str fl (truediv fl root_path filename),
                    size_f = st_size (the stt), ctime = st_ctime (the stt),
                    mtime = st_mtime (the stt), hash = None, folder_score = None\<rparr> size_groups,
                  files_scanned + 1)"]
      by (cases b; cases stt) (auto simp: Let_def)
  qed
qed

lemma walk_returns:
  "(\<forall>fp. \<exists>b. should_skip_path fl resolve fnmatchcase sc fp = Inr b)
   \<Longrightarrow> \<exists>state'. walk_dir fl resolve fnmatchcase sc root_path entries state = Inr state'"
  "(\<forall>fp. \<exists>b. should_skip_path fl resolve fnmatchcase sc fp = Inr b)
   \<Longrightarrow> \<exists>state'. walk_dirs fl resolve fnmatchcase sc root_path subdirs state = Inr state'"
proof (induction fl resolve fnmatchcase sc root_path entries state
    and fl resolve fnmatchcase sc root_path subdirs state
    rule: walk_dir_walk_dirs.induct)
  case (1 fl resolve fnmatchcase sc root_path entries state)
  from "1.prems" obtain kept where
    k: "prune_dirs fl resolve fnmatchcase sc root_path entries = Inr kept"
    using prune_dirs_returns[of fl resolve fnmatchcase sc root_path entries] by blast
  from "1.prems" obtain mid where
    m: "scan_files fl resolve fnmatchcase sc root_path entries state = Inr mid"
    using scan_files_returns[of fl resolve fnmatchcase sc root_path entries state] by blast
  from "1.IH"[OF k m "1.prems"] k m show ?case by simp
next
  case (2 fl resolve fnmatchcase sc root_path state)
  show ?case by simp
next
  case (3 fl resolve fnmatchcase sc root_path f st subdirs state)
  from "3.IH"[OF "3.prems"] show ?case by simp
next
  case (4 fl resolve fnmatchcase sc root_path d link children subdirs state)
  show ?case
  proof (cases link)
    case True
    with "4.IH"(1)[OF True "4.prems"] show ?thesis by simp
  next
    case False
    from "4.IH"(2)[OF False "4.prems"] obtain mid where
      m: "walk_dir fl resolve fnmatchcase sc (truediv fl root_path d) children state = Inr mid"
      by blast
    from "4.IH"(3)[OF False m "4.prems"] False m show ?thesis by simp
  qed
qed

text \<open>
  C5. When \<open>scan\<close> returns, the sizes of the mapping are distinct keys; every bucket has at
  least two members; every file in a bucket has the size that is the bucket's key, a size
  not below \<open>min_size\<close> and not above \<open>max_size\<close>, and a path for which \<open>should_skip_path\<close>
  returned false: a path that resolves, whose resolved path neither is nor lies under an
  excluded path, and whose lower-cased suffix is not an extension to skip. The scan does
  return when no exclusion glob is an empty pattern and resolving a path raises nothing but
  \<open>OSError\<close> or \<open>RuntimeError\<close>.
\<close>

theorem scan_buckets:
  "(\<forall>candidates n.
       scan fl resolve fnmatchcase sc tree = Inr (candidates, n)
     \<longrightarrow> distinct (map fst candidates)
       \<and> (\<forall>(sz, files)\<in>set candidates.
             2 \<le> length files
           \<and> (\<forall>f\<in>set files.
                 size_f f = sz \<and> min_size sc \<le> size_f f \<and> size_f f \<le> max_size sc
               \<and> (\<exists>fp resolved.
                     path f = path_str fl fp
                   \<and> should_skip_path fl resolve fnmatchcase sc fp = Inr False
                   \<and> resolve fp = Inr resolved
                   \<and> \<not> under_excluded fl sc resolved
                   \<and> lower (suffix fp) \<notin> set (skip_extensions sc)))))
   \<and> ((\<forall>pat\<in>set (exclude_globs sc). parts (parse_parts fl [casefold fl (lower pat)]) \<noteq> [])
        \<and> (\<forall>p e. resolve p = Inl e \<longrightarrow> e = OSError \<or> e = RuntimeError)
      \<longrightarrow> (\<exists>candidates n. scan fl resolve fnmatchcase sc tree = Inr (candidates, n)))"
proof -
  have first: "(\<forall>candidates n.
       scan fl resolve fnmatchcase sc tree = Inr (candidates, n)
     \<longrightarrow> distinct (map fst candidates)
       \<and> (\<forall>(sz, files)\<in>set candidates.
             2 \<le> length files
           \<and> (\<forall>f\<in>set files.
                 size_f f = sz \<and> min_size sc \<le> size_f f \<and> size_f f \<le> max_size sc
               \<and> (\<exists>fp resolved.
                     path f = path_str fl fp
                   \<and> should_skip_path fl resolve fnmatchcase sc fp = Inr False
                   \<and> resolve fp = Inr resolved
                   \<and> \<not> under_excluded fl sc resolved
                   \<and> lower (suffix fp) \<notin> set (skip_extensions sc)))))"
  proof (intro allI impI)
    fix candidates n
    assume run: "scan fl resolve fnmatchcase sc tree = Inr (candidates, n)"
    define P where "P = (\<lambda>sz (f :: FileInfo).
        size_f f = sz \<and> min_size sc \<le> size_f f \<and> size_f f \<le> max_size sc
      \<and> (\<exists>fp. path f = path_str fl fp \<and> should_skip_path fl resolve fnmatchcase sc fp = Inr False))"
    from run obtain size_groups where
      w: "walk_dir fl resolve fnmatchcase sc (s_root sc) tree ([], 0) = Inr (size_groups, n)"
      and c: "candidates = filter (\<lambda>(sz, files). length files > 1) size_groups"
      by (auto simp: scan_def split: sum.splits)
    have admit: "\<forall>fp (stat :: stat_result). should_skip_path fl resolve fnmatchcase sc fp = Inr False
             \<longrightarrow> min_size sc \<le> st_size stat \<longrightarrow> st_size stat \<le> max_size sc
             \<longrightarrow> P (st_size stat)
                   \<lparr>path = path_str fl fp, size_f = st_size stat, ctime = st_ctime stat,
                    mtime = st_mtime stat, hash = None, folder_score = None\<rparr>"
      unfolding P_def by auto
    have start: "(\<forall>(k, vs)\<in>set (fst (([], 0) :: scan_state)). \<forall>v\<in>set vs. P k v)
        \<and> distinct (map fst (fst (([], 0) :: scan_state)))"
      by simp
    from walk_invariant(1)[OF w start admit]
    have inv: "\<forall>(k, vs)\<in>set size_groups. \<forall>v\<in>set vs. P k v" and d: "distinct (map fst size_groups)"
      by simp_all
    have "distinct (map fst candidates)" using d c by (simp add: distinct_map_filter)
    moreover have "2 \<le> length files
             \<and> (\<forall>f\<in>set files.
                   size_f f = sz \<and> min_size sc \<le> size_f f \<and> size_f f \<le> max_size sc
                 \<and> (\<exists>fp resolved.
                       path f = path_str fl fp
                     \<and> should_skip_path fl resolve fnmatchcase sc fp = Inr False
                     \<and> resolve fp = Inr resolved
                     \<and> \<not> under_excluded fl sc resolved
                     \<and> lower (suffix fp) \<notin> set (skip_extensions sc)))"
      if "(sz, files) \<in> set candidates" for sz files
    proof -
      from that c have mem: "(sz, files) \<in> set size_groups" and len: "length files > 1" by auto
      have "size_f f = sz \<and> min_size sc \<le> size_f f \<and> size_f f \<le> max_size sc
                 \<and> (\<exists>fp resolved.
                       path f = path_str fl fp
                     \<and> should_skip_path fl resolve fnmatchcase sc fp = Inr False
                     \<and> resolve fp = Inr resolved
                     \<and> \<not> under_excluded fl sc resolved
                     \<and> lower (suffix fp) \<notin> set (skip_extensions sc))" if "f \<in> set files" for f
      proof -
        from inv mem that have "P sz f" by blast
        then obtain fp where
          f: "size_f f = sz" "min_size sc \<le> size_f f" "size_f f \<le> max_size sc"
          "path f = path_str fl fp" "should_skip_path fl resolve fnmatchcase sc fp = Inr False"
          unfolding P_def by blast
        from should_skip_path_false[OF f(5)] f show ?thesis by blast
      qed
      moreover have "2 \<le> length files" using len by simp
      ultimately show ?thesis by blast
    qed
    ultimately show "distinct (map fst candidates)
         \<and> (\<forall>(sz, files)\<in>set candidates.
               2 \<le> length files
             \<and> (\<forall>f\<in>set files.
                   size_f f = sz \<and> min_size sc \<le> size_f f \<and> size_f f \<le> max_size sc
                 \<and> (\<exists>fp resolved.
                       path f = path_str fl fp
                     \<and> should_skip_path fl resolve fnmatchcase sc fp = Inr False
                     \<and> resolve fp = Inr resolved
                     \<and> \<not> under_excluded fl sc resolved
                     \<and> lower (suffix fp) \<notin> set (skip_extensions sc))))"
      by blast
  qed
  have second: "((\<forall>pat\<in>set (exclude_globs sc). parts (parse_parts fl [casefold fl (lower pat)]) \<noteq> [])
        \<and> (\<forall>p e. resolve p = Inl e \<longrightarrow> e = OSError \<or> e = RuntimeError)
      \<longrightarrow> (\<exists>candidates n. scan fl resolve fnmatchcase sc tree = Inr (candidates, n)))"
  proof (intro impI)
    assume a: "(\<forall>pat\<in>set (exclude_globs sc). parts (parse_parts fl [casefold fl (lower pat)]) \<noteq> [])
          \<and> (\<forall>p e. resolve p = Inl e \<longrightarrow> e = OSError \<or> e = RuntimeError)"
    then have "\<forall>fp. \<exists>b. should_skip_path fl resolve fnmatchcase sc fp = Inr b"
      using should_skip_path_returns[of sc fl resolve fnmatchcase] by blast
    from walk_returns(1)[OF this, of "s_root sc" tree "([], 0)"]
    show "\<exists>candidates n. scan fl resolve fnmatchcase sc tree = Inr (candidates, n)"
      by (auto simp: scan_def split: prod.splits)
  qed
  show ?thesis using first second by blast
qed

lemma demo_scan:
  "scan Windows resolve_self star_fnmatch demo_scanner demo_tree = Inr ([(5, demo_bucket)], 4)"
  by code_simp

theorem scan_buckets_witness:
  "scan Windows resolve_self star_fnmatch demo_scanner demo_tree = Inr ([(5, demo_bucket)], 4)
   \<and> 2 \<le> length demo_bucket
   \<and> size_f (scanned_file [''D:'', ''data'', ''sub'', ''d.txt'']) = 5
   \<and> min_size demo_scanner \<le> 5 \<and> 5 \<le> max_size demo_scanner
   \<and> (\<exists>fp resolved.
         path (scanned_file [''D:'', ''data'', ''sub'', ''d.txt'']) = path_str Windows fp
       \<and> should_skip_path Windows resolve_self star_fnmatch demo_scanner fp = Inr False
       \<and> resolve_self fp = Inr resolved
       \<and> \<not> under_excluded Windows demo_scanner resolved
       \<and> lower (suffix fp) \<notin> set (skip_extensions demo_scanner))"
proof -
  let ?d = "scanned_file [''D:'', ''data'', ''sub'', ''d.txt'']"
  note t = scan_buckets[of Windows resolve_self star_fnmatch demo_scanner demo_tree,
      THEN conjunct1, rule_format, OF demo_scan]
  have m: "(5, demo_bucket) \<in> set [(5 :: int, demo_bucket)]" by simp
  have d: "?d \<in> set demo_bucket" by (simp add: demo_bucket_def)
  from t m have b: "2 \<le> length demo_bucket"
    "\<forall>f\<in>set demo_bucket.
       size_f f = 5 \<and> min_size demo_scanner \<le> size_f f \<and> size_f f \<le> max_size demo_scanner
     \<and> (\<exists>fp resolved.
           path f = path_str Windows fp
         \<and> should_skip_path Windows resolve_self star_fnmatch demo_scanner fp = Inr False
         \<and> resolve_self fp = Inr resolved
         \<and> \<not> under_excluded Windows demo_scanner resolved
         \<and> lower (suffix fp) \<notin> set (skip_extensions demo_scanner))"
    by blast+
  from b(2) d have
    "size_f ?d = 5 \<and> min_size demo_scanner \<le> size_f ?d \<and> size_f ?d \<le> max_size demo_scanner
     \<and> (\<exists>fp resolved.
           path ?d = path_str Windows fp
         \<and> should_skip_path Windows resolve_self star_fnmatch demo_scanner fp = Inr False
         \<and> resolve_self fp = Inr resolved
         \<and> \<not> under_excluded Windows demo_scanner resolved
         \<and> lower (suffix fp) \<notin> set (skip_extensions demo_scanner))"
    by blast
  with demo_scan b(1) show ?thesis by metis
qed

end
